theory Spec2Isabelle
  imports Main "HOL-Library.Word"
begin

unbundle bit_operations_syntax

section \<open>dummyvfs.c: the counter files of dummyfs\<close>

text \<open>
  The module exports two files, each bound to one of the two file-scope statics
  \<^verbatim>\<open>static atomic_t counter, subcounter;\<close>. An \<^verbatim>\<open>atomic_t\<close> holds a C \<^verbatim>\<open>int\<close>:
  a 32-bit two's complement value whose arithmetic wraps around (the kernel is built
  with \<^verbatim>\<open>-fno-strict-overflow\<close>). It is read as a signed number with \<open>sint\<close>.
\<close>

subsection \<open>Return values\<close>

text \<open>
  The handlers return a byte count or a negated errno. \<open>Undefined\<close> is not a return
  value: it marks the places where the C code dereferences NULL, uses a freed object
  or reads outside the bytes that \<^verbatim>\<open>snprintf\<close> wrote, so that no theorem can rest
  on what happens after them.
\<close>

datatype error = EINVAL | EFAULT | ENOMEM | Undefined

subsection \<open>The two statics and the atomic operations on them\<close>

type_synonym atomic_t = "32 word"

datatype cell = Counter | Subcounter

record statics =
  counter :: atomic_t
  subcounter :: atomic_t

fun atomic_read :: "statics \<Rightarrow> cell \<Rightarrow> atomic_t" where
  "atomic_read m Counter = counter m"
| "atomic_read m Subcounter = subcounter m"

fun atomic_set :: "cell \<Rightarrow> atomic_t \<Rightarrow> statics \<Rightarrow> statics" where
  "atomic_set Counter v m = m\<lparr>counter := v\<rparr>"
| "atomic_set Subcounter v m = m\<lparr>subcounter := v\<rparr>"

definition atomic_inc :: "cell \<Rightarrow> statics \<Rightarrow> statics" where
  "atomic_inc c m = atomic_set c (atomic_read m c + 1) m"

subsection \<open>Open files\<close>

text \<open>
  \<^verbatim>\<open>private_data\<close> and \<^verbatim>\<open>i_private\<close> are \<^verbatim>\<open>void *\<close>: \<open>None\<close> is NULL,
  \<open>Some c\<close> is the address of the static \<open>c\<close>.
\<close>

record struct_file =
  private_data :: "cell option"

subsection \<open>\<^verbatim>\<open>snprintf(tmp, TMPSIZE, "%d\n", v)\<close>\<close>

definition TMPSIZE :: nat where
  "TMPSIZE = 20"

definition digit_char :: "nat \<Rightarrow> char" where
  "digit_char d = char_of (48 + d)"

fun digits :: "nat \<Rightarrow> string" where
  "digits n = (if n < 10 then [digit_char n] else digits (n div 10) @ [digit_char (n mod 10)])"

declare digits.simps [simp del]

text \<open>The conversion \<^verbatim>\<open>%d\<close>: a minus sign for a negative number, then its decimal digits.\<close>

definition format_d :: "int \<Rightarrow> string" where
  "format_d i = (if i < 0 then CHR ''-'' # digits (nat (- i)) else digits (nat i))"

definition serialize :: "atomic_t \<Rightarrow> string" where
  "serialize v = format_d (sint v) @ [CHR 0x0A]"

text \<open>
  \<^verbatim>\<open>snprintf\<close> stores at most \<open>n - 1\<close> characters and returns the length the whole
  text has, stored or not. The first component is what \<^verbatim>\<open>tmp\<close> holds before the
  terminating NUL; the bytes of \<^verbatim>\<open>tmp\<close> after it stay uninitialised.
\<close>

definition snprintf :: "nat \<Rightarrow> atomic_t \<Rightarrow> string \<times> int" where
  "snprintf n v = (take (n - 1) (serialize v), int (length (serialize v)))"

subsection \<open>User memory\<close>

text \<open>
  A destination buffer in user space is given by the number of bytes that can be stored
  at \<^verbatim>\<open>buf\<close> before the copy faults; a source buffer by the bytes that can be loaded
  from it. Both copy functions return the number of bytes they could \<^emph>\<open>not\<close> copy, as the
  kernel's do; \<open>copy_to_user\<close> also gives the bytes that reached user space.
\<close>

definition copy_to_user :: "nat \<Rightarrow> string \<Rightarrow> nat \<times> string" where
  "copy_to_user room src = (length src - room, take room src)"

definition copy_from_user :: "string \<Rightarrow> string \<Rightarrow> nat \<Rightarrow> nat \<times> string" where
  "copy_from_user tmp ubuf n =
     (n - length ubuf, take n ubuf @ replicate (n - length ubuf) (CHR 0x00) @ drop n tmp)"

subsection \<open>\<^verbatim>\<open>dfs_open\<close>, \<^verbatim>\<open>dfs_read_file\<close>\<close>

record io_result =
  r_ret :: "error + nat"
  r_user :: string
  r_offset :: int
  r_cells :: statics

text \<open>
  \<open>r_ret\<close> is the value returned, \<open>r_user\<close> the bytes stored in the caller's buffer,
  \<open>r_offset\<close> the value of \<^verbatim>\<open>*offset\<close> when the handler returns and \<open>r_cells\<close> the
  statics then.
\<close>

definition dfs_open :: "cell option \<Rightarrow> struct_file \<Rightarrow> nat \<times> struct_file" where
  "dfs_open i_private fp = (0, fp\<lparr>private_data := i_private\<rparr>)"

text \<open>
  The comparison \<^verbatim>\<open>count > len - *offset\<close> is made on unsigned 64-bit values; with
  \<open>0 \<le> offset \<le> len\<close> (the only case that goes on to use \<open>count\<close>) it is the comparison
  of the numbers. The source of the copy is \<^verbatim>\<open>tmp + *offset\<close>: a negative offset, or a
  range that leaves the bytes \<^verbatim>\<open>snprintf\<close> wrote, is \<open>Undefined\<close>.
\<close>

definition dfs_read_file :: "statics \<Rightarrow> struct_file \<Rightarrow> nat \<Rightarrow> nat \<Rightarrow> int \<Rightarrow> io_result" where
  "dfs_read_file m fp room count offset =
     (case private_data fp of
        None \<Rightarrow> \<lparr>r_ret = Inl Undefined, r_user = [], r_offset = offset, r_cells = m\<rparr>
      | Some c \<Rightarrow>
          let v0 = atomic_read m c;
              v = (if offset > 0 then v0 - 1 else v0);
              m' = (if offset > 0 then m else atomic_inc c m);
              (tmp, len) = snprintf TMPSIZE v
          in if offset > len
             then \<lparr>r_ret = Inr 0, r_user = [], r_offset = offset, r_cells = m'\<rparr>
             else
               let count' = (if int count > len - offset then nat (len - offset) else count)
               in if offset < 0 \<or> nat offset + count' > length tmp
                  then \<lparr>r_ret = Inl Undefined, r_user = [], r_offset = offset, r_cells = m'\<rparr>
                  else
                    let (left, stored) = copy_to_user room (take count' (drop (nat offset) tmp))
                    in if left \<noteq> 0
                       then \<lparr>r_ret = Inl EFAULT, r_user = stored, r_offset = offset, r_cells = m'\<rparr>
                       else \<lparr>r_ret = Inr count', r_user = stored,
                             r_offset = offset + int count', r_cells = m'\<rparr>)"

subsection \<open>\<^verbatim>\<open>simple_strtol(tmp, NULL, 10)\<close>\<close>

definition is_digit :: "char \<Rightarrow> bool" where
  "is_digit c = (48 \<le> (of_char c :: nat) \<and> (of_char c :: nat) \<le> 57)"

text \<open>
  The kernel's conversion loop: it accumulates decimal digits in an
  \<^verbatim>\<open>unsigned long long\<close> and stops at the first character that is not one (the NUL
  that ends the string at the latest).
\<close>

fun parse_integer :: "string \<Rightarrow> 64 word \<Rightarrow> 64 word" where
  "parse_integer [] res = res"
| "parse_integer (c # s) res =
     (if is_digit c then parse_integer s (res * 10 + of_nat (of_char c - 48)) else res)"

definition simple_strtoul :: "string \<Rightarrow> 64 word" where
  "simple_strtoul cp = parse_integer cp 0"

definition simple_strtol :: "string \<Rightarrow> 64 word" where
  "simple_strtol cp =
     (case cp of
        [] \<Rightarrow> 0
      | c # s \<Rightarrow> if c = CHR ''-'' then - simple_strtoul s else simple_strtoul cp)"

subsection \<open>\<^verbatim>\<open>dfs_write_file\<close>\<close>

text \<open>
  \<^verbatim>\<open>atomic_set\<close> takes an \<^verbatim>\<open>int\<close>: the \<^verbatim>\<open>long\<close> that \<^verbatim>\<open>simple_strtol\<close> returns is
  cut to its low 32 bits (\<open>ucast\<close>).
\<close>

definition dfs_write_file :: "statics \<Rightarrow> struct_file \<Rightarrow> string \<Rightarrow> nat \<Rightarrow> int \<Rightarrow> io_result" where
  "dfs_write_file m fp ubuf count offset =
     (if offset \<noteq> 0
      then \<lparr>r_ret = Inl EINVAL, r_user = [], r_offset = offset, r_cells = m\<rparr>
      else if count \<ge> TMPSIZE
      then \<lparr>r_ret = Inl EINVAL, r_user = [], r_offset = offset, r_cells = m\<rparr>
      else
        let (left, tmp) = copy_from_user (replicate TMPSIZE (CHR 0x00)) ubuf count
        in if left \<noteq> 0
           then \<lparr>r_ret = Inl EFAULT, r_user = [], r_offset = offset, r_cells = m\<rparr>
           else
             (case private_data fp of
                None \<Rightarrow> \<lparr>r_ret = Inl Undefined, r_user = [], r_offset = offset, r_cells = m\<rparr>
              | Some c \<Rightarrow>
                  \<lparr>r_ret = Inr count, r_user = [], r_offset = offset,
                   r_cells = atomic_set c (ucast (simple_strtol tmp)) m\<rparr>))"

subsection \<open>The reading of the written bytes that the handler is compared with\<close>

text \<open>
  A lenient decimal conversion, stated on its own: an optional minus sign, then the
  longest run of decimal digits, most significant first; whatever follows is ignored, and
  no digit at all gives 0.
\<close>

definition decimal_value :: "string \<Rightarrow> nat" where
  "decimal_value ds = foldl (\<lambda>a c. 10 * a + (of_char c - 48)) 0 ds"

definition lenient_decimal :: "string \<Rightarrow> int" where
  "lenient_decimal s =
     (case s of
        [] \<Rightarrow> 0
      | c # r \<Rightarrow>
          if c = CHR ''-'' then - int (decimal_value (takeWhile is_digit r))
          else int (decimal_value (takeWhile is_digit s)))"

subsection \<open>Sequences of requests on open files\<close>

text \<open>
  A request is a call of one of the two handlers with its arguments; it arrives through
  an open file. \<open>serve_all\<close> runs a sequence of them, one call after the other, and
  gives the statics left behind.
\<close>

datatype request = Read nat nat int | Write string nat int

fun serve :: "statics \<Rightarrow> struct_file \<Rightarrow> request \<Rightarrow> io_result" where
  "serve m fp (Read room count offset) = dfs_read_file m fp room count offset"
| "serve m fp (Write ubuf count offset) = dfs_write_file m fp ubuf count offset"

fun serve_all :: "statics \<Rightarrow> (struct_file \<times> request) list \<Rightarrow> statics" where
  "serve_all m [] = m"
| "serve_all m ((fp, rq) # rest) = serve_all (r_cells (serve m fp rq)) rest"

section \<open>dummyvfs.c: building the tree at mount time\<close>

subsection \<open>Inodes, dentries, the superblock\<close>

text \<open>
  Only the fields that dummyvfs.c assigns are kept (time stamps and owner apart, which
  nothing here reads). Objects live in two stores, each a list of (address, object) in
  the order of allocation. Every allocation of the kernel may fail: \<open>allocs\<close> lists the
  outcomes of the allocations to come, the first one first, and an allocation past its
  end succeeds.
\<close>

definition LFS_MAGIC :: nat where
  "LFS_MAGIC = 0x11223344"

definition VMACACHE_SIZE :: nat where
  "VMACACHE_SIZE = 4"

definition S_IFDIR :: nat where
  "S_IFDIR = 16384"

definition S_IFREG :: nat where
  "S_IFREG = 32768"

text \<open>
  In octal, as the C source writes them: \<open>S_IFDIR\<close> is 0040000 and \<open>S_IFREG\<close> is
  0100000; the permission bits 0755 are 493 and 0644 are 420.
\<close>

datatype file_operations = no_open_fops | simple_dir_operations | dummyfs_file_ops

datatype inode_operations = empty_iops | simple_dir_inode_operations

datatype super_operations = dummyfs_ops

record inode =
  i_mode :: nat
  i_ino :: nat
  i_nlink :: nat
  i_fop :: file_operations
  i_op :: inode_operations
  i_private :: "cell option"

record dentry =
  d_name :: string
  d_parent :: "nat option"
  d_inode :: "nat option"

record super_block =
  s_blocksize :: nat
  s_blocksize_bits :: nat
  s_magic :: nat
  s_op :: "super_operations option"
  s_root :: "nat option"

record kernel =
  allocs :: "bool list"
  next_ptr :: nat
  last_ino :: nat
  inodes :: "(nat \<times> inode) list"
  dentries :: "(nat \<times> dentry) list"
  sb :: super_block
  cells :: statics

text \<open>
  What \<^verbatim>\<open>mount_nodev\<close> hands to \<^verbatim>\<open>dfs_fill_super\<close>: a superblock with nothing set and
  no object of this filesystem yet. The statics keep whatever value \<open>m\<close> they have.
\<close>

definition mount_nodev :: "bool list \<Rightarrow> statics \<Rightarrow> kernel" where
  "mount_nodev outcomes m =
     \<lparr>allocs = outcomes, next_ptr = 1, last_ino = 0, inodes = [], dentries = [],
      sb = \<lparr>s_blocksize = 0, s_blocksize_bits = 0, s_magic = 0, s_op = None, s_root = None\<rparr>,
      cells = m\<rparr>"

subsection \<open>The kernel's helpers\<close>

definition alloc :: "kernel \<Rightarrow> bool \<times> kernel" where
  "alloc k = (case allocs k of [] \<Rightarrow> (True, k) | b # bs \<Rightarrow> (b, k\<lparr>allocs := bs\<rparr>))"

definition upd_inode :: "nat \<Rightarrow> (inode \<Rightarrow> inode) \<Rightarrow> kernel \<Rightarrow> kernel" where
  "upd_inode p f k = k\<lparr>inodes := map (\<lambda>(q, i). if q = p then (q, f i) else (q, i)) (inodes k)\<rparr>"

definition upd_dentry :: "nat \<Rightarrow> (dentry \<Rightarrow> dentry) \<Rightarrow> kernel \<Rightarrow> kernel" where
  "upd_dentry p f k =
     k\<lparr>dentries := map (\<lambda>(q, d). if q = p then (q, f d) else (q, d)) (dentries k)\<rparr>"

definition new_inode :: "kernel \<Rightarrow> nat option \<times> kernel" where
  "new_inode k =
     (let (ok, k1) = alloc k
      in if ok
         then (Some (next_ptr k1),
               k1\<lparr>next_ptr := next_ptr k1 + 1,
                  inodes := inodes k1 @
                    [(next_ptr k1,
                      \<lparr>i_mode = 0, i_ino = 0, i_nlink = 1, i_fop = no_open_fops,
                       i_op = empty_iops, i_private = None\<rparr>)]\<rparr>)
         else (None, k1))"

definition get_next_ino :: "kernel \<Rightarrow> nat \<times> kernel" where
  "get_next_ino k = (last_ino k + 1, k\<lparr>last_ino := last_ino k + 1\<rparr>)"

text \<open>
  \<^verbatim>\<open>d_alloc_name\<close> allocates a dentry with no inode yet and links it under its parent.
\<close>

definition d_alloc_name :: "nat \<Rightarrow> string \<Rightarrow> kernel \<Rightarrow> nat option \<times> kernel" where
  "d_alloc_name parent name k =
     (let (ok, k1) = alloc k
      in if ok
         then (Some (next_ptr k1),
               k1\<lparr>next_ptr := next_ptr k1 + 1,
                  dentries := dentries k1 @
                    [(next_ptr k1, \<lparr>d_name = name, d_parent = Some parent, d_inode = None\<rparr>)]\<rparr>)
         else (None, k1))"

definition d_add :: "nat \<Rightarrow> nat \<Rightarrow> kernel \<Rightarrow> kernel" where
  "d_add de ino k = upd_dentry de (\<lambda>d. d\<lparr>d_inode := Some ino\<rparr>) k"

text \<open>
  \<^verbatim>\<open>dput\<close> of the only reference to a dentry that was never hashed unlinks it from its
  parent and frees it. \<^verbatim>\<open>iput\<close> of the only reference to an inode frees it
  (\<^verbatim>\<open>drop_inode\<close> is \<^verbatim>\<open>generic_delete_inode\<close>); \<open>None\<close> says that the inode was no
  longer there.
\<close>

definition dput :: "nat \<Rightarrow> kernel \<Rightarrow> kernel" where
  "dput de k = k\<lparr>dentries := filter (\<lambda>(q, d). q \<noteq> de) (dentries k)\<rparr>"

definition iput :: "nat \<Rightarrow> kernel \<Rightarrow> kernel option" where
  "iput ino k =
     (if ino \<in> fst ` set (inodes k)
      then Some (k\<lparr>inodes := filter (\<lambda>(q, i). q \<noteq> ino) (inodes k)\<rparr>)
      else None)"

text \<open>
  \<^verbatim>\<open>inode_init_owner\<close> stores owner and mode into the inode it is given, with no check
  of the pointer: \<open>None\<close> is its store through NULL.
\<close>

definition inode_init_owner :: "nat option \<Rightarrow> nat \<Rightarrow> kernel \<Rightarrow> kernel option" where
  "inode_init_owner ino mode k =
     (case ino of None \<Rightarrow> None | Some p \<Rightarrow> Some (upd_inode p (\<lambda>i. i\<lparr>i_mode := mode\<rparr>) k))"

definition set_nlink :: "nat \<Rightarrow> nat \<Rightarrow> kernel \<Rightarrow> kernel" where
  "set_nlink ino n k = upd_inode ino (\<lambda>i. i\<lparr>i_nlink := n\<rparr>) k"

text \<open>
  \<^verbatim>\<open>d_make_root\<close> allocates the root dentry and attaches the inode; when the allocation
  fails it releases the inode itself (\<^verbatim>\<open>iput\<close>) before it returns NULL.
\<close>

definition d_make_root :: "nat \<Rightarrow> kernel \<Rightarrow> nat option \<times> kernel" where
  "d_make_root root_inode k =
     (let (ok, k1) = alloc k
      in if ok
         then (Some (next_ptr k1),
               k1\<lparr>next_ptr := next_ptr k1 + 1,
                  dentries := dentries k1 @
                    [(next_ptr k1,
                      \<lparr>d_name = ''/'', d_parent = None, d_inode = Some root_inode\<rparr>)]\<rparr>)
         else (None, (case iput root_inode k1 of None \<Rightarrow> k1 | Some k2 \<Rightarrow> k2)))"

subsection \<open>\<^verbatim>\<open>dummyfs_make_inode\<close>, \<^verbatim>\<open>dummyfs_create_dir\<close>, \<^verbatim>\<open>dummyfs_create_file\<close>\<close>

definition dummyfs_make_inode ::
  "nat \<Rightarrow> file_operations \<Rightarrow> kernel \<Rightarrow> nat option \<times> kernel" where
  "dummyfs_make_inode mode fops k =
     (case new_inode k of
        (None, k1) \<Rightarrow> (None, k1)
      | (Some p, k1) \<Rightarrow>
          let k2 = upd_inode p (\<lambda>i. i\<lparr>i_mode := mode, i_fop := fops\<rparr>) k1;
              (ino, k3) = get_next_ino k2
          in (Some p, upd_inode p (\<lambda>i. i\<lparr>i_ino := ino\<rparr>) k3))"

definition dummyfs_create_dir :: "nat \<Rightarrow> string \<Rightarrow> kernel \<Rightarrow> nat option \<times> kernel" where
  "dummyfs_create_dir parent name k =
     (case d_alloc_name parent name k of
        (None, k1) \<Rightarrow> (None, k1)
      | (Some de, k1) \<Rightarrow>
          (case dummyfs_make_inode (S_IFDIR OR 493) simple_dir_operations k1 of
             (None, k2) \<Rightarrow> (None, dput de k2)
           | (Some ino, k2) \<Rightarrow>
               (Some de,
                d_add de ino (upd_inode ino (\<lambda>i. i\<lparr>i_op := simple_dir_inode_operations\<rparr>) k2))))"

definition dummyfs_create_file ::
  "nat \<Rightarrow> string \<Rightarrow> cell \<Rightarrow> kernel \<Rightarrow> nat option \<times> kernel" where
  "dummyfs_create_file dir name cnt k =
     (case d_alloc_name dir name k of
        (None, k1) \<Rightarrow> (None, k1)
      | (Some de, k1) \<Rightarrow>
          (case dummyfs_make_inode (S_IFREG OR 420) dummyfs_file_ops k1 of
             (None, k2) \<Rightarrow> (None, dput de k2)
           | (Some ino, k2) \<Rightarrow>
               (Some de, d_add de ino (upd_inode ino (\<lambda>i. i\<lparr>i_private := Some cnt\<rparr>) k2))))"

subsection \<open>\<^verbatim>\<open>dummyfs_create_files\<close>, \<^verbatim>\<open>dfs_fill_super\<close>\<close>

text \<open>
  \<^verbatim>\<open>dummyfs_create_files\<close> returns \<^verbatim>\<open>void\<close>: what the two calls of
  \<^verbatim>\<open>dummyfs_create_file\<close> return is dropped, and a failed \<^verbatim>\<open>dummyfs_create_dir\<close> only
  skips the file below it.
\<close>

definition dummyfs_create_files :: "nat \<Rightarrow> kernel \<Rightarrow> kernel" where
  "dummyfs_create_files root k =
     (let k1 = k\<lparr>cells := atomic_set Counter 0 (cells k)\<rparr>;
          (f, k2) = dummyfs_create_file root ''counter'' Counter k1;
          k3 = k2\<lparr>cells := atomic_set Subcounter 0 (cells k2)\<rparr>;
          (subdir, k4) = dummyfs_create_dir root ''subdir'' k3
      in case subdir of
           None \<Rightarrow> k4
         | Some sd \<Rightarrow> snd (dummyfs_create_file sd ''subcounter'' Subcounter k4))"

text \<open>
  The order of the source is kept: \<^verbatim>\<open>inode_init_owner\<close> is called on \<open>root\<close> before
  \<open>root\<close> is compared with NULL, and after a failed \<^verbatim>\<open>d_make_root\<close> the label
  \<^verbatim>\<open>fail_iput\<close> releases the inode once more.
\<close>

definition dfs_fill_super :: "kernel \<Rightarrow> (error + nat) \<times> kernel" where
  "dfs_fill_super k =
     (let k1 = k\<lparr>sb := (sb k)\<lparr>s_blocksize := VMACACHE_SIZE, s_blocksize_bits := VMACACHE_SIZE,
                              s_magic := LFS_MAGIC, s_op := Some dummyfs_ops\<rparr>\<rparr>;
          (root, k2) = dummyfs_make_inode (S_IFDIR OR 493) simple_dir_operations k1
      in case inode_init_owner root (S_IFDIR OR 493) k2 of
           None \<Rightarrow> (Inl Undefined, k2)
         | Some k3 \<Rightarrow>
             (case root of
                None \<Rightarrow> (Inl ENOMEM, k3)
              | Some r \<Rightarrow>
                  let k4 = upd_inode r (\<lambda>i. i\<lparr>i_op := simple_dir_inode_operations\<rparr>) k3;
                      k5 = set_nlink r 2 k4;
                      (root_dentry, k6) = d_make_root r k5
                  in case root_dentry of
                       None \<Rightarrow>
                         (case iput r k6 of
                            None \<Rightarrow> (Inl Undefined, k6)
                          | Some k7 \<Rightarrow> (Inl ENOMEM, k7))
                     | Some rd \<Rightarrow>
                         let k7 = k6\<lparr>sb := (sb k6)\<lparr>s_root := Some rd\<rparr>\<rparr>;
                             k8 = dummyfs_create_files rd k7;
                             k9 = k8\<lparr>sb := (sb k8)\<lparr>s_root := Some rd\<rparr>\<rparr>
                         in (Inr 0, k9)))"

text \<open>
  The state in which \<^verbatim>\<open>dfs_fill_super\<close> calls \<^verbatim>\<open>dummyfs_create_files\<close>: the root
  inode and the root dentry exist, the root is set, two allocation outcomes are used up.
\<close>

definition after_root :: "bool list \<Rightarrow> statics \<Rightarrow> kernel" where
  "after_root outcomes m =
     \<lparr>allocs = drop 2 outcomes, next_ptr = 3, last_ino = 1,
      inodes = [(1, \<lparr>i_mode = S_IFDIR OR 493, i_ino = 1, i_nlink = 2,
                     i_fop = simple_dir_operations, i_op = simple_dir_inode_operations,
                     i_private = None\<rparr>)],
      dentries = [(2, \<lparr>d_name = ''/'', d_parent = None, d_inode = Some 1\<rparr>)],
      sb = \<lparr>s_blocksize = VMACACHE_SIZE, s_blocksize_bits = VMACACHE_SIZE,
            s_magic = LFS_MAGIC, s_op = Some dummyfs_ops, s_root = Some 2\<rparr>,
      cells = m\<rparr>"

text \<open>
  What the creation of one entry does with the allocation outcomes, stated on its own: the
  entry is made when its dentry and then its inode are allocated. The result is whether
  the entry is made, how many addresses the attempt used, and the outcomes left for the
  allocations after it (the inode is not asked for when the dentry could not be had).
\<close>

fun entry_allocs :: "bool list \<Rightarrow> bool \<times> nat \<times> bool list" where
  "entry_allocs [] = (True, 2, [])"
| "entry_allocs (False # rest) = (False, 0, rest)"
| "entry_allocs [True] = (True, 2, [])"
| "entry_allocs (True # False # rest) = (False, 1, rest)"
| "entry_allocs (True # True # rest) = (True, 2, rest)"

section \<open>Properties of the counter files\<close>

subsection \<open>The serialized text\<close>

lemma digit_char_simps:
  "digit_char 0 = CHR ''0''" "digit_char 1 = CHR ''1''" "digit_char 2 = CHR ''2''"
  "digit_char 3 = CHR ''3''" "digit_char 4 = CHR ''4''" "digit_char 5 = CHR ''5''"
  "digit_char 6 = CHR ''6''" "digit_char 7 = CHR ''7''" "digit_char 8 = CHR ''8''"
  "digit_char 9 = CHR ''9''" "digit_char (Suc 0) = CHR ''1''"
  by code_simp+

lemma length_digits: "0 < k \<Longrightarrow> n < 10 ^ k \<Longrightarrow> length (digits n) \<le> k"
proof (induction n arbitrary: k rule: digits.induct)
  case (1 n)
  show ?case
  proof (cases "n < 10")
    case True
    with 1 show ?thesis by (simp add: digits.simps)
  next
    case False
    with 1(3) have k2: "1 < k" by (cases k; cases "k - 1") auto
    then obtain j where j: "k = Suc j" "0 < j" by (cases k) auto
    from 1(3) j have "n div 10 < 10 ^ j" by (simp add: less_mult_imp_div_less mult.commute)
    with 1(1)[OF False j(2)] have "length (digits (n div 10)) \<le> j" .
    with False j show ?thesis by (subst digits.simps) simp
  qed
qed

lemma length_digits_pos: "0 < length (digits n)"
  by (subst digits.simps) simp

lemma length_format_d:
  assumes "- (2 ^ 31) \<le> i" and "i < 2 ^ 31"
  shows "length (format_d i) \<le> 11"
proof (cases "i < 0")
  case True
  with assms have "nat (- i) < 10 ^ 10" by simp
  then have "length (digits (nat (- i))) \<le> 10" by (rule length_digits [rotated]) simp
  with True show ?thesis by (simp add: format_d_def)
next
  case False
  with assms have "nat i < 10 ^ 10" by simp
  then have "length (digits (nat i)) \<le> 10" by (rule length_digits [rotated]) simp
  with False show ?thesis by (simp add: format_d_def)
qed

lemma length_serialize: "length (serialize v) \<le> 12"
  using length_format_d [of "sint v"] sint_ge [of v] sint_lt [of v]
  by (simp add: serialize_def)

lemma snprintf_fits: "snprintf TMPSIZE v = (serialize v, int (length (serialize v)))"
  using length_serialize [of v] by (simp add: snprintf_def TMPSIZE_def)

lemma serialize_0: "serialize 0 = [CHR ''0'', CHR 0x0A]"
  by (simp add: serialize_def format_d_def digits.simps digit_char_simps)

lemma serialize_1: "serialize 1 = [CHR ''1'', CHR 0x0A]"
  by (simp add: serialize_def format_d_def digits.simps digit_char_simps)

lemma serialize_40: "serialize 40 = [CHR ''4'', CHR ''0'', CHR 0x0A]"
  by (simp add: serialize_def format_d_def digits.simps digit_char_simps)

lemma serialize_41: "serialize 41 = [CHR ''4'', CHR ''1'', CHR 0x0A]"
  by (simp add: serialize_def format_d_def digits.simps digit_char_simps)

lemma serialize_42: "serialize 42 = [CHR ''4'', CHR ''2'', CHR 0x0A]"
  by (simp add: serialize_def format_d_def digits.simps digit_char_simps)

lemma serialize_123: "serialize 123 = [CHR ''1'', CHR ''2'', CHR ''3'', CHR 0x0A]"
  by (simp add: serialize_def format_d_def digits.simps digit_char_simps)

subsection \<open>What a read does, in one equation\<close>

lemma sint_succ:
  fixes v :: "32 word"
  assumes "sint v < 2147483647"
  shows "sint (v + 1) = sint v + 1"
proof -
  have "sint (v + 1) = signed_take_bit 31 (sint v + 1)"
    by (simp add: sint_word_ariths)
  also have "\<dots> = sint v + 1"
    using assms sint_ge [of v] by (simp add: signed_take_bit_int_eq_self)
  finally show ?thesis .
qed

lemma atomic_read_set: "atomic_read (atomic_set c v m) c' = (if c' = c then v else atomic_read m c')"
  by (cases c; cases c') simp_all

lemma atomic_read_inc: "atomic_read (atomic_inc c m) c' = (if c' = c then atomic_read m c + 1 else atomic_read m c')"
  by (simp add: atomic_inc_def atomic_read_set)

lemma dfs_read_file_eq:
  assumes fp: "private_data fp = Some c" and off: "0 \<le> offset"
  shows "dfs_read_file m fp room count offset =
     (let v = (if offset > 0 then atomic_read m c - 1 else atomic_read m c);
          m' = (if offset > 0 then m else atomic_inc c m);
          n = min count (length (serialize v) - nat offset)
      in if n \<le> room
         then \<lparr>r_ret = Inr n, r_user = take n (drop (nat offset) (serialize v)),
               r_offset = offset + int n, r_cells = m'\<rparr>
         else \<lparr>r_ret = Inl EFAULT, r_user = take room (drop (nat offset) (serialize v)),
               r_offset = offset, r_cells = m'\<rparr>)"
proof -
  define v where "v = (if offset > 0 then atomic_read m c - 1 else atomic_read m c)"
  define m2 where "m2 = (if offset > 0 then m else atomic_inc c m)"
  define str where "str = serialize v"
  define n where "n = min count (length str - nat offset)"
  have unfolded: "dfs_read_file m fp room count offset =
     (if offset > int (length str)
      then \<lparr>r_ret = Inr 0, r_user = [], r_offset = offset, r_cells = m2\<rparr>
      else
        let count' = (if int count > int (length str) - offset
                      then nat (int (length str) - offset) else count)
        in if offset < 0 \<or> nat offset + count' > length str
           then \<lparr>r_ret = Inl Undefined, r_user = [], r_offset = offset, r_cells = m2\<rparr>
           else
             let (left, stored) = copy_to_user room (take count' (drop (nat offset) str))
             in if left \<noteq> 0
                then \<lparr>r_ret = Inl EFAULT, r_user = stored, r_offset = offset, r_cells = m2\<rparr>
                else \<lparr>r_ret = Inr count', r_user = stored,
                      r_offset = offset + int count', r_cells = m2\<rparr>)"
    unfolding v_def m2_def str_def
    by (simp only: dfs_read_file_def fp option.case snprintf_fits Let_def prod.case)
  have goal: "dfs_read_file m fp room count offset =
      (if n \<le> room
         then \<lparr>r_ret = Inr n, r_user = take n (drop (nat offset) str),
               r_offset = offset + int n, r_cells = m2\<rparr>
         else \<lparr>r_ret = Inl EFAULT, r_user = take room (drop (nat offset) str),
               r_offset = offset, r_cells = m2\<rparr>)"
  proof (cases "offset > int (length str)")
    case True
    then have "n = 0" using off by (simp add: n_def)
    with True show ?thesis by (simp add: unfolded)
  next
    case False
    have cnt: "(if int count > int (length str) - offset
                then nat (int (length str) - offset) else count) = n"
      using False off by (auto simp: n_def min_def)
    have inside: "\<not> (offset < 0 \<or> nat offset + n > length str)"
      using False off by (auto simp: n_def min_def)
    have len: "length (take n (drop (nat offset) str)) = n"
      using False off by (auto simp: n_def min_def)
    show ?thesis
      using False inside
      by (simp add: unfolded cnt copy_to_user_def len del: length_take length_drop)
  qed
  show ?thesis
    unfolding Let_def using goal by (simp add: v_def m2_def str_def n_def)
qed

lemma dfs_read_file_zero:
  assumes fp: "private_data fp = Some c"
  shows "dfs_read_file m fp room count 0 =
     (let n = min count (length (serialize (atomic_read m c)))
      in if n \<le> room
         then \<lparr>r_ret = Inr n, r_user = take n (serialize (atomic_read m c)),
               r_offset = int n, r_cells = atomic_inc c m\<rparr>
         else \<lparr>r_ret = Inl EFAULT, r_user = take room (serialize (atomic_read m c)),
               r_offset = 0, r_cells = atomic_inc c m\<rparr>)"
  using dfs_read_file_eq [OF fp, of 0 m room count] by (simp add: Let_def)

lemma dfs_read_file_pos:
  assumes fp: "private_data fp = Some c" and off: "0 < offset"
  shows "dfs_read_file m fp room count offset =
     (let n = min count (length (serialize (atomic_read m c - 1)) - nat offset)
      in if n \<le> room
         then \<lparr>r_ret = Inr n, r_user = take n (drop (nat offset) (serialize (atomic_read m c - 1))),
               r_offset = offset + int n, r_cells = m\<rparr>
         else \<lparr>r_ret = Inl EFAULT, r_user = take room (drop (nat offset) (serialize (atomic_read m c - 1))),
               r_offset = offset, r_cells = m\<rparr>)"
  using dfs_read_file_eq [OF fp, of offset m room count] off by (simp add: Let_def)

lemma dfs_read_file_neg:
  assumes off: "offset < 0"
  shows "r_ret (dfs_read_file m fp room count offset) = Inl Undefined \<and>
         r_offset (dfs_read_file m fp room count offset) = offset"
  using off by (simp add: dfs_read_file_def snprintf_fits Let_def split: option.split)

lemma dfs_read_file_null:
  assumes "private_data fp = None"
  shows "dfs_read_file m fp room count offset =
         \<lparr>r_ret = Inl Undefined, r_user = [], r_offset = offset, r_cells = m\<rparr>"
  using assms by (simp add: dfs_read_file_def)

lemma r_cells_read:
  "r_cells (dfs_read_file m fp room count offset) =
     (case private_data fp of
        None \<Rightarrow> m
      | Some c \<Rightarrow> if offset > 0 then m else atomic_inc c m)"
  by (simp add: dfs_read_file_def Let_def split: option.split prod.split)

lemmas read_eval =
  dfs_read_file_zero [of _ Counter] dfs_read_file_pos [of _ Counter]
  dfs_read_file_zero [of _ Subcounter] dfs_read_file_pos [of _ Subcounter]
  Let_def atomic_read_inc atomic_inc_def
  serialize_0 serialize_40 serialize_41 serialize_42 serialize_123

subsection \<open>Reads\<close>

text \<open>
  Claim C1. A read at offset 0 through a file bound to the cell \<open>c\<close>, which holds \<open>v\<close>,
  leaves \<open>v + 1\<close> in the cell (the 32-bit successor: it wraps from 2147483647 to
  -2147483648) whatever the copy to the caller does; when the copy succeeds it returns the
  first \<open>count\<close> bytes of the decimal text of \<open>v\<close> and a newline, the whole text when
  \<open>count\<close> is at least its length. The next read at offset 0 serves \<open>v + 1\<close>. With the
  cell at 0 the text is "0" and a newline, and the cell is left at 1.
\<close>

theorem read_at_zero_serves_then_increments:
  assumes fp: "private_data fp = Some c" and v: "atomic_read m c = v"
  shows "r_cells (dfs_read_file m fp room count 0) = atomic_set c (v + 1) m \<and>
         atomic_read (r_cells (dfs_read_file m fp room count 0)) c = v + 1 \<and>
         (sint v < 2147483647 \<longrightarrow>
            sint (atomic_read (r_cells (dfs_read_file m fp room count 0)) c) = sint v + 1) \<and>
         (min count (length (serialize v)) \<le> room \<longrightarrow>
            r_ret (dfs_read_file m fp room count 0) = Inr (min count (length (serialize v))) \<and>
            r_user (dfs_read_file m fp room count 0) = take count (serialize v)) \<and>
         (min count2 (length (serialize (v + 1))) \<le> room2 \<longrightarrow>
            r_user (dfs_read_file (r_cells (dfs_read_file m fp room count 0)) fp room2 count2 0)
              = take count2 (serialize (v + 1))) \<and>
         (v = 0 \<and> 2 \<le> count \<and> 2 \<le> room \<longrightarrow>
            r_user (dfs_read_file m fp room count 0) = [CHR ''0'', CHR 0x0A] \<and>
            atomic_read (r_cells (dfs_read_file m fp room count 0)) c = 1)"
proof -
  let ?r = "dfs_read_file m fp room count 0"
  have cells: "r_cells ?r = atomic_inc c m"
    by (simp add: dfs_read_file_zero [OF fp] Let_def)
  then have c1: "r_cells ?r = atomic_set c (v + 1) m"
    by (simp add: atomic_inc_def v)
  have c2: "atomic_read (r_cells ?r) c = v + 1"
    by (simp add: cells atomic_read_inc v)
  have c3: "min count (length (serialize v)) \<le> room \<longrightarrow>
            r_ret ?r = Inr (min count (length (serialize v))) \<and> r_user ?r = take count (serialize v)"
    by (simp add: dfs_read_file_zero [OF fp] Let_def v min_def)
  have c4: "min count2 (length (serialize (v + 1))) \<le> room2 \<longrightarrow>
            r_user (dfs_read_file (r_cells ?r) fp room2 count2 0) = take count2 (serialize (v + 1))"
    by (simp add: dfs_read_file_zero [OF fp] Let_def atomic_read_inc v min_def)
  have c5: "v = 0 \<and> 2 \<le> count \<and> 2 \<le> room \<longrightarrow>
            r_user ?r = [CHR ''0'', CHR 0x0A] \<and> atomic_read (r_cells ?r) c = 1"
    by (simp add: dfs_read_file_zero [OF fp] Let_def v serialize_0 atomic_read_inc)
  have c6: "sint v < 2147483647 \<longrightarrow> sint (atomic_read (r_cells ?r) c) = sint v + 1"
    by (simp add: c2 sint_succ)
  from c1 c2 c3 c4 c5 c6 show ?thesis by blast
qed

theorem read_at_zero_serves_then_increments_witness:
  "private_data \<lparr>private_data = Some Counter\<rparr> = Some Counter \<and>
   atomic_read \<lparr>counter = 0, subcounter = 7\<rparr> Counter = 0 \<and>
   sint (0 :: 32 word) < 2147483647 \<and>
   r_ret (dfs_read_file \<lparr>counter = 0, subcounter = 7\<rparr> \<lparr>private_data = Some Counter\<rparr> 64 64 0)
     = Inr 2 \<and>
   r_user (dfs_read_file \<lparr>counter = 0, subcounter = 7\<rparr> \<lparr>private_data = Some Counter\<rparr> 64 64 0)
     = [CHR ''0'', CHR 0x0A] \<and>
   r_cells (dfs_read_file \<lparr>counter = 0, subcounter = 7\<rparr> \<lparr>private_data = Some Counter\<rparr> 64 64 0)
     = \<lparr>counter = 1, subcounter = 7\<rparr> \<and>
   r_user (dfs_read_file
             (r_cells (dfs_read_file \<lparr>counter = 0, subcounter = 7\<rparr>
                         \<lparr>private_data = Some Counter\<rparr> 64 64 0))
             \<lparr>private_data = Some Counter\<rparr> 64 64 0)
     = [CHR ''1'', CHR 0x0A]"
  using read_at_zero_serves_then_increments
    [of "\<lparr>private_data = Some Counter\<rparr>" Counter "\<lparr>counter = 0, subcounter = 7\<rparr>" 0
        64 64 64 64]
  by (auto simp: serialize_0 serialize_1)

text \<open>
  Claim C3. A read at an offset above 0 serves the text of \<open>v - 1\<close> and leaves the cell
  alone. So a read at offset 0 that returned \<open>n1 > 0\<close> bytes, followed by a read at offset
  \<open>n1\<close>, delivers the rest of the same text, and the cell has gone up once.
\<close>

theorem continuation_read_serves_previous_value:
  assumes fp: "private_data fp = Some c" and v: "atomic_read m c = v"
  shows "(0 < offset \<longrightarrow>
            r_cells (dfs_read_file m fp room count offset) = m \<and>
            (min count (length (serialize (v - 1)) - nat offset) \<le> room \<longrightarrow>
               r_ret (dfs_read_file m fp room count offset)
                 = Inr (min count (length (serialize (v - 1)) - nat offset)) \<and>
               r_user (dfs_read_file m fp room count offset)
                 = take count (drop (nat offset) (serialize (v - 1))))) \<and>
         (r_ret (dfs_read_file m fp room count 0) = Inr n1 \<and> 0 < n1 \<longrightarrow>
            r_user (dfs_read_file m fp room count 0) = take n1 (serialize v) \<and>
            atomic_read (r_cells (dfs_read_file (r_cells (dfs_read_file m fp room count 0))
                                   fp room2 count2 (int n1))) c = v + 1 \<and>
            (min count2 (length (serialize v) - n1) \<le> room2 \<longrightarrow>
               r_user (dfs_read_file (r_cells (dfs_read_file m fp room count 0))
                         fp room2 count2 (int n1))
                 = take count2 (drop n1 (serialize v)) \<and>
               (length (serialize v) - n1 \<le> count2 \<longrightarrow>
                  r_user (dfs_read_file m fp room count 0) @
                  r_user (dfs_read_file (r_cells (dfs_read_file m fp room count 0))
                            fp room2 count2 (int n1))
                    = serialize v)))"
proof -
  let ?r1 = "dfs_read_file m fp room count 0"
  let ?r2 = "dfs_read_file (r_cells ?r1) fp room2 count2 (int n1)"
  have part1: "0 < offset \<longrightarrow>
            r_cells (dfs_read_file m fp room count offset) = m \<and>
            (min count (length (serialize (v - 1)) - nat offset) \<le> room \<longrightarrow>
               r_ret (dfs_read_file m fp room count offset)
                 = Inr (min count (length (serialize (v - 1)) - nat offset)) \<and>
               r_user (dfs_read_file m fp room count offset)
                 = take count (drop (nat offset) (serialize (v - 1))))"
    by (simp add: dfs_read_file_pos [OF fp] Let_def v min_def)
  have part2: "r_user ?r1 = take n1 (serialize v) \<and>
            atomic_read (r_cells ?r2) c = v + 1 \<and>
            (min count2 (length (serialize v) - n1) \<le> room2 \<longrightarrow>
               r_user ?r2 = take count2 (drop n1 (serialize v)) \<and>
               (length (serialize v) - n1 \<le> count2 \<longrightarrow> r_user ?r1 @ r_user ?r2 = serialize v))"
    if ok: "r_ret ?r1 = Inr n1" and pos: "0 < n1"
  proof -
    have n1: "n1 = min count (length (serialize v))" and fits: "min count (length (serialize v)) \<le> room"
      using ok by (auto simp: dfs_read_file_zero [OF fp] Let_def v split: if_splits)
    have u1: "r_user ?r1 = take n1 (serialize v)"
      using fits by (simp add: dfs_read_file_zero [OF fp] Let_def v n1)
    have cells1: "r_cells ?r1 = atomic_inc c m"
      by (simp add: dfs_read_file_zero [OF fp] Let_def)
    have same: "atomic_read (r_cells ?r1) c - 1 = v"
      by (simp add: cells1 atomic_read_inc v)
    have off2: "0 < int n1" using pos by simp
    have cells2: "r_cells ?r2 = r_cells ?r1"
      by (simp add: dfs_read_file_pos [OF fp off2] Let_def)
    have once: "atomic_read (r_cells ?r2) c = v + 1"
      by (simp add: cells1 dfs_read_file_pos [OF fp off2] Let_def atomic_read_inc v)
    have u2: "r_user ?r2 = take count2 (drop n1 (serialize v))"
      if "min count2 (length (serialize v) - n1) \<le> room2"
      using that by (simp add: dfs_read_file_pos [OF fp off2] Let_def same min_def)
    have whole: "r_user ?r1 @ r_user ?r2 = serialize v"
      if "min count2 (length (serialize v) - n1) \<le> room2" and "length (serialize v) - n1 \<le> count2"
      using that u2 by (simp add: u1)
    from u1 once u2 whole show ?thesis by blast
  qed
  from part1 part2 show ?thesis by blast
qed

theorem continuation_read_serves_previous_value_witness:
  "private_data \<lparr>private_data = Some Counter\<rparr> = Some Counter \<and>
   atomic_read \<lparr>counter = 41, subcounter = 7\<rparr> Counter = 41 \<and>
   r_cells (dfs_read_file \<lparr>counter = 41, subcounter = 7\<rparr> \<lparr>private_data = Some Counter\<rparr> 64 1 1)
     = \<lparr>counter = 41, subcounter = 7\<rparr> \<and>
   r_user (dfs_read_file \<lparr>counter = 41, subcounter = 7\<rparr> \<lparr>private_data = Some Counter\<rparr> 64 1 1)
     = ''0'' \<and>
   r_ret (dfs_read_file \<lparr>counter = 41, subcounter = 7\<rparr> \<lparr>private_data = Some Counter\<rparr> 64 1 0)
     = Inr 1 \<and>
   r_user (dfs_read_file \<lparr>counter = 41, subcounter = 7\<rparr> \<lparr>private_data = Some Counter\<rparr> 64 1 0)
     = ''4'' \<and>
   r_user (dfs_read_file
             (r_cells (dfs_read_file \<lparr>counter = 41, subcounter = 7\<rparr>
                         \<lparr>private_data = Some Counter\<rparr> 64 1 0))
             \<lparr>private_data = Some Counter\<rparr> 64 64 1)
     = [CHR ''1'', CHR 0x0A] \<and>
   atomic_read (r_cells (dfs_read_file
             (r_cells (dfs_read_file \<lparr>counter = 41, subcounter = 7\<rparr>
                         \<lparr>private_data = Some Counter\<rparr> 64 1 0))
             \<lparr>private_data = Some Counter\<rparr> 64 64 1)) Counter = 42"
proof -
  have first: "r_ret (dfs_read_file \<lparr>counter = 41, subcounter = 7\<rparr>
                        \<lparr>private_data = Some Counter\<rparr> 64 1 0) = Inr 1"
    by (simp add: read_eval)
  show ?thesis
    using first
      continuation_read_serves_previous_value
        [of "\<lparr>private_data = Some Counter\<rparr>" Counter "\<lparr>counter = 41, subcounter = 7\<rparr>" 41
            1 64 1 1 64 64]
    by (simp add: serialize_41 serialize_40)
qed

text \<open>
  Claim C6. For a file bound to a cell and an offset that is not negative: at or past the
  end of the serialized text the read returns 0 bytes; before it, the read returns
  \<open>min count (length - offset)\<close> bytes of the text from position \<open>offset\<close> on, or
  \<open>EFAULT\<close> when the caller's buffer cannot take them.
\<close>

theorem read_returns_slice_of_serialization:
  assumes fp: "private_data fp = Some c" and off: "0 \<le> offset"
    and v: "v = (if 0 < offset then atomic_read m c - 1 else atomic_read m c)"
  shows "(int (length (serialize v)) \<le> offset \<longrightarrow>
            r_ret (dfs_read_file m fp room count offset) = Inr 0 \<and>
            r_user (dfs_read_file m fp room count offset) = []) \<and>
         (offset < int (length (serialize v)) \<longrightarrow>
            (min count (length (serialize v) - nat offset) \<le> room \<longrightarrow>
               r_ret (dfs_read_file m fp room count offset)
                 = Inr (min count (length (serialize v) - nat offset)) \<and>
               r_user (dfs_read_file m fp room count offset)
                 = take (min count (length (serialize v) - nat offset))
                     (drop (nat offset) (serialize v))) \<and>
            (room < min count (length (serialize v) - nat offset) \<longrightarrow>
               r_ret (dfs_read_file m fp room count offset) = Inl EFAULT))"
  using off by (auto simp: dfs_read_file_eq [OF fp off] Let_def v [symmetric])

theorem read_returns_slice_of_serialization_witness:
  "private_data \<lparr>private_data = Some Subcounter\<rparr> = Some Subcounter \<and> (0::int) \<le> 1 \<and>
   serialize 123 = [CHR ''1'', CHR ''2'', CHR ''3'', CHR 0x0A] \<and>
   r_ret (dfs_read_file \<lparr>counter = 41, subcounter = 124\<rparr> \<lparr>private_data = Some Subcounter\<rparr>
            64 2 1) = Inr 2 \<and>
   r_user (dfs_read_file \<lparr>counter = 41, subcounter = 124\<rparr> \<lparr>private_data = Some Subcounter\<rparr>
            64 2 1) = ''23'' \<and>
   r_ret (dfs_read_file \<lparr>counter = 41, subcounter = 124\<rparr> \<lparr>private_data = Some Subcounter\<rparr>
            1 2 1) = Inl EFAULT \<and>
   r_ret (dfs_read_file \<lparr>counter = 41, subcounter = 124\<rparr> \<lparr>private_data = Some Subcounter\<rparr>
            64 2 4) = Inr 0 \<and>
   r_user (dfs_read_file \<lparr>counter = 41, subcounter = 124\<rparr> \<lparr>private_data = Some Subcounter\<rparr>
            64 2 4) = []"
  using read_returns_slice_of_serialization
    [of "\<lparr>private_data = Some Subcounter\<rparr>" Subcounter 1 123
        "\<lparr>counter = 41, subcounter = 124\<rparr>" 64 2]
    read_returns_slice_of_serialization
    [of "\<lparr>private_data = Some Subcounter\<rparr>" Subcounter 1 123
        "\<lparr>counter = 41, subcounter = 124\<rparr>" 1 2]
    read_returns_slice_of_serialization
    [of "\<lparr>private_data = Some Subcounter\<rparr>" Subcounter 4 123
        "\<lparr>counter = 41, subcounter = 124\<rparr>" 64 2]
  by (simp add: serialize_123)

text \<open>
  Claim C9. A read at offset 0 that returns \<open>EFAULT\<close> has incremented the cell all the
  same: the next read at offset 0 that succeeds serves \<open>v + 1\<close>.
\<close>

theorem read_fault_keeps_increment:
  assumes fp: "private_data fp = Some c" and v: "atomic_read m c = v"
    and fault: "r_ret (dfs_read_file m fp room count 0) = Inl EFAULT"
  shows "atomic_read (r_cells (dfs_read_file m fp room count 0)) c = v + 1 \<and>
         (min count2 (length (serialize (v + 1))) \<le> room2 \<longrightarrow>
            r_ret (dfs_read_file (r_cells (dfs_read_file m fp room count 0)) fp room2 count2 0)
              = Inr (min count2 (length (serialize (v + 1)))) \<and>
            r_user (dfs_read_file (r_cells (dfs_read_file m fp room count 0)) fp room2 count2 0)
              = take count2 (serialize (v + 1)))"
  by (simp add: dfs_read_file_zero [OF fp] Let_def atomic_read_inc v min_def)

theorem read_fault_keeps_increment_witness:
  "private_data \<lparr>private_data = Some Counter\<rparr> = Some Counter \<and>
   atomic_read \<lparr>counter = 41, subcounter = 7\<rparr> Counter = 41 \<and>
   r_ret (dfs_read_file \<lparr>counter = 41, subcounter = 7\<rparr> \<lparr>private_data = Some Counter\<rparr> 0 64 0)
     = Inl EFAULT \<and>
   atomic_read (r_cells (dfs_read_file \<lparr>counter = 41, subcounter = 7\<rparr>
                           \<lparr>private_data = Some Counter\<rparr> 0 64 0)) Counter = 42 \<and>
   r_user (dfs_read_file
             (r_cells (dfs_read_file \<lparr>counter = 41, subcounter = 7\<rparr>
                         \<lparr>private_data = Some Counter\<rparr> 0 64 0))
             \<lparr>private_data = Some Counter\<rparr> 64 64 0)
     = [CHR ''4'', CHR ''2'', CHR 0x0A]"
proof -
  have fault: "r_ret (dfs_read_file \<lparr>counter = 41, subcounter = 7\<rparr>
                        \<lparr>private_data = Some Counter\<rparr> 0 64 0) = Inl EFAULT"
    by (simp add: read_eval)
  have "private_data \<lparr>private_data = Some Counter\<rparr> = Some Counter"
    and "atomic_read \<lparr>counter = 41, subcounter = 7\<rparr> Counter = 41"
    by simp_all
  from read_fault_keeps_increment [OF this fault, of 64 64] fault
  show ?thesis by (simp add: serialize_42)
qed

text \<open>
  Claim C10. A read that returns \<open>n\<close> bytes leaves \<open>*offset\<close> advanced by \<open>n\<close> (by 0
  when it returns 0 bytes); a read that fails leaves it as it was; a write never changes
  it. (\<open>dfs_open\<close> is not given the offset.)
\<close>

theorem offset_advances_by_bytes_returned:
  "(r_ret (dfs_read_file m fp room count offset) = Inr n \<longrightarrow>
      r_offset (dfs_read_file m fp room count offset) = offset + int n) \<and>
   (r_ret (dfs_read_file m fp room count offset) = Inl e \<longrightarrow>
      r_offset (dfs_read_file m fp room count offset) = offset) \<and>
   r_offset (dfs_write_file m fp ubuf count offset) = offset"
proof -
  have rd: "(r_ret (dfs_read_file m fp room count offset) = Inr n \<longrightarrow>
      r_offset (dfs_read_file m fp room count offset) = offset + int n) \<and>
   (r_ret (dfs_read_file m fp room count offset) = Inl e \<longrightarrow>
      r_offset (dfs_read_file m fp room count offset) = offset)"
  proof (cases "private_data fp")
    case None
    then show ?thesis by (simp add: dfs_read_file_null)
  next
    case (Some c)
    show ?thesis
    proof (cases "offset < 0")
      case True
      then show ?thesis using dfs_read_file_neg [OF True, of m fp room count] by simp
    next
      case False
      then have "0 \<le> offset" by simp
      then show ?thesis by (simp add: dfs_read_file_eq [OF Some] Let_def)
    qed
  qed
  have wr: "r_offset (dfs_write_file m fp ubuf count offset) = offset"
    by (simp add: dfs_write_file_def Let_def split: prod.split option.split)
  from rd wr show ?thesis by blast
qed

theorem offset_advances_by_bytes_returned_witness:
  "r_ret (dfs_read_file \<lparr>counter = 41, subcounter = 7\<rparr> \<lparr>private_data = Some Counter\<rparr> 64 2 0)
     = Inr 2 \<and>
   r_offset (dfs_read_file \<lparr>counter = 41, subcounter = 7\<rparr> \<lparr>private_data = Some Counter\<rparr> 64 2 0)
     = 2 \<and>
   r_ret (dfs_read_file \<lparr>counter = 41, subcounter = 7\<rparr> \<lparr>private_data = Some Counter\<rparr> 0 2 1)
     = Inl EFAULT \<and>
   r_offset (dfs_read_file \<lparr>counter = 41, subcounter = 7\<rparr> \<lparr>private_data = Some Counter\<rparr> 0 2 1)
     = 1 \<and>
   r_offset (dfs_write_file \<lparr>counter = 41, subcounter = 7\<rparr> \<lparr>private_data = Some Counter\<rparr>
               ''42'' 2 0) = 0"
proof -
  have ok: "r_ret (dfs_read_file \<lparr>counter = 41, subcounter = 7\<rparr>
                     \<lparr>private_data = Some Counter\<rparr> 64 2 0) = Inr 2"
    and fault: "r_ret (dfs_read_file \<lparr>counter = 41, subcounter = 7\<rparr>
                     \<lparr>private_data = Some Counter\<rparr> 0 2 1) = Inl EFAULT"
    by (simp_all add: read_eval)
  show ?thesis
    using ok fault
      offset_advances_by_bytes_returned
        [of "\<lparr>counter = 41, subcounter = 7\<rparr>" "\<lparr>private_data = Some Counter\<rparr>" 64 2 0 2
            EFAULT "''42''"]
      offset_advances_by_bytes_returned
        [of "\<lparr>counter = 41, subcounter = 7\<rparr>" "\<lparr>private_data = Some Counter\<rparr>" 0 2 1 2
            EFAULT "''42''"]
    by simp
qed

subsection \<open>Writes\<close>

lemma parse_integer_of_nat:
  "parse_integer s (of_nat a) =
     of_nat (foldl (\<lambda>a c. 10 * a + (of_char c - 48)) a (takeWhile is_digit s))"
proof (induction s arbitrary: a)
  case Nil
  show ?case by simp
next
  case (Cons c s)
  show ?case
  proof (cases "is_digit c")
    case True
    then have "parse_integer (c # s) (of_nat a)
        = parse_integer s (of_nat (10 * a + (of_char c - 48)))"
      by (simp add: mult.commute)
    also have "\<dots> = of_nat (foldl (\<lambda>a c. 10 * a + (of_char c - 48))
                          (10 * a + (of_char c - 48)) (takeWhile is_digit s))"
      by (rule Cons.IH)
    finally show ?thesis using True by simp
  next
    case False
    then show ?thesis by simp
  qed
qed

lemma simple_strtoul_eq: "simple_strtoul s = of_nat (decimal_value (takeWhile is_digit s))"
  using parse_integer_of_nat [of s 0] by (simp add: simple_strtoul_def decimal_value_def)

lemma takeWhile_stop: "\<not> P y \<Longrightarrow> takeWhile P (xs @ y # ys) = takeWhile P xs"
  by (induction xs) simp_all

lemma not_digit_NUL: "\<not> is_digit (CHR 0x00)"
  by (simp add: is_digit_def)

lemma simple_strtol_eq:
  "simple_strtol (s @ CHR 0x00 # pad) = word_of_int (lenient_decimal s)"
proof (cases s)
  case Nil
  then show ?thesis
    by (simp add: simple_strtol_def simple_strtoul_eq lenient_decimal_def decimal_value_def
        not_digit_NUL)
next
  case (Cons c r)
  have r: "takeWhile is_digit (r @ CHR 0x00 # pad) = takeWhile is_digit r"
    and s: "takeWhile is_digit (s @ CHR 0x00 # pad) = takeWhile is_digit s"
    by (simp_all add: takeWhile_stop not_digit_NUL)
  show ?thesis
  proof (cases "c = CHR ''-''")
    case True
    with Cons r show ?thesis
      by (simp add: simple_strtol_def simple_strtoul_eq lenient_decimal_def)
  next
    case False
    with Cons s show ?thesis
      by (simp add: simple_strtol_def simple_strtoul_eq lenient_decimal_def)
  qed
qed

lemma ucast_long_to_int: "(ucast (word_of_int k :: 64 word) :: 32 word) = word_of_int k"
  by (simp add: unsigned_of_int word_of_int_eq_iff take_bit_take_bit)

lemma tmp_after_copy:
  assumes "count < TMPSIZE" and "count \<le> length ubuf"
  shows "copy_from_user (replicate TMPSIZE (CHR 0x00)) ubuf count
         = (0, take count ubuf @ CHR 0x00 # replicate (TMPSIZE - count - 1) (CHR 0x00))"
proof -
  from assms(1) obtain j where j: "TMPSIZE - count = Suc j" by (cases "TMPSIZE - count") auto
  then have "replicate (TMPSIZE - count) (CHR 0x00) = CHR 0x00 # replicate (TMPSIZE - count - 1) (CHR 0x00)"
    by simp
  with assms show ?thesis by (simp add: copy_from_user_def)
qed

lemma lenient_42: "lenient_decimal ''42abc'' = 42"
  by (simp add: lenient_decimal_def decimal_value_def is_digit_def)

lemma dfs_write_file_eq:
  assumes fp: "private_data fp = Some c" and small: "count < TMPSIZE"
    and readable: "count \<le> length ubuf"
  shows "dfs_write_file m fp ubuf count 0 =
     \<lparr>r_ret = Inr count, r_user = [], r_offset = 0,
      r_cells = atomic_set c (word_of_int (lenient_decimal (take count ubuf))) m\<rparr>"
  using small
  by (simp add: dfs_write_file_def tmp_after_copy [OF small readable] fp simple_strtol_eq
      ucast_long_to_int)

text \<open>
  Claim C4. A write at offset 0 of fewer than \<open>TMPSIZE\<close> bytes, all of them readable,
  through a file bound to the cell \<open>c\<close>: the cell receives the lenient decimal reading of
  the bytes (optional minus sign, digits up to the first character that is not one, cut
  to 32 bits), whatever else the input holds, and the call returns \<open>count\<close>.
\<close>

theorem write_stores_lenient_decimal:
  assumes fp: "private_data fp = Some c" and small: "count < TMPSIZE"
    and readable: "count \<le> length ubuf"
  shows "r_ret (dfs_write_file m fp ubuf count 0) = Inr count \<and>
         r_cells (dfs_write_file m fp ubuf count 0)
           = atomic_set c (word_of_int (lenient_decimal (take count ubuf))) m"
  by (simp add: dfs_write_file_eq [OF fp small readable])

theorem write_stores_lenient_decimal_witness:
  "private_data \<lparr>private_data = Some Counter\<rparr> = Some Counter \<and> 5 < TMPSIZE \<and>
   5 \<le> length ''42abcdef'' \<and>
   r_ret (dfs_write_file \<lparr>counter = 1, subcounter = 7\<rparr> \<lparr>private_data = Some Counter\<rparr>
            ''42abcdef'' 5 0) = Inr 5 \<and>
   r_cells (dfs_write_file \<lparr>counter = 1, subcounter = 7\<rparr> \<lparr>private_data = Some Counter\<rparr>
            ''42abcdef'' 5 0) = \<lparr>counter = 42, subcounter = 7\<rparr>"
  using write_stores_lenient_decimal
    [of "\<lparr>private_data = Some Counter\<rparr>" Counter 5 "''42abcdef''" "\<lparr>counter = 1, subcounter = 7\<rparr>"]
  by (simp add: TMPSIZE_def lenient_42)

text \<open>
  Claim C5. A write at an offset other than 0, and a write of \<open>TMPSIZE\<close> = 20 bytes or
  more, return \<open>-EINVAL\<close> (the one errno the source has for both refusals) and leave
  both statics as they were.
\<close>

theorem write_rejects_offset_and_length:
  "(offset \<noteq> 0 \<longrightarrow>
      r_ret (dfs_write_file m fp ubuf count offset) = Inl EINVAL \<and>
      r_cells (dfs_write_file m fp ubuf count offset) = m) \<and>
   (TMPSIZE \<le> count \<longrightarrow>
      r_ret (dfs_write_file m fp ubuf count offset) = Inl EINVAL \<and>
      r_cells (dfs_write_file m fp ubuf count offset) = m) \<and>
   TMPSIZE = 20"
  by (simp add: dfs_write_file_def TMPSIZE_def)

theorem write_rejects_offset_and_length_witness:
  "(5::int) \<noteq> 0 \<and>
   r_ret (dfs_write_file \<lparr>counter = 41, subcounter = 7\<rparr> \<lparr>private_data = Some Counter\<rparr>
            ''42'' 2 5) = Inl EINVAL \<and>
   r_cells (dfs_write_file \<lparr>counter = 41, subcounter = 7\<rparr> \<lparr>private_data = Some Counter\<rparr>
            ''42'' 2 5) = \<lparr>counter = 41, subcounter = 7\<rparr> \<and>
   TMPSIZE \<le> 20 \<and>
   r_ret (dfs_write_file \<lparr>counter = 41, subcounter = 7\<rparr> \<lparr>private_data = Some Counter\<rparr>
            ''00000000000000000042'' 20 0) = Inl EINVAL \<and>
   r_cells (dfs_write_file \<lparr>counter = 41, subcounter = 7\<rparr> \<lparr>private_data = Some Counter\<rparr>
            ''00000000000000000042'' 20 0) = \<lparr>counter = 41, subcounter = 7\<rparr>"
proof -
  have off: "(5::int) \<noteq> 0" and len: "TMPSIZE \<le> 20"
    by (simp_all add: TMPSIZE_def)
  from off len
    write_rejects_offset_and_length
      [of 5 "\<lparr>counter = 41, subcounter = 7\<rparr>" "\<lparr>private_data = Some Counter\<rparr>" "''42''" 2]
    write_rejects_offset_and_length
      [of 0 "\<lparr>counter = 41, subcounter = 7\<rparr>" "\<lparr>private_data = Some Counter\<rparr>"
          "''00000000000000000042''" 20]
  show ?thesis by blast
qed

subsection \<open>The text a read serves is read back as the value\<close>

lemma of_char_digit_char: "d < 10 \<Longrightarrow> of_char (digit_char d) = 48 + d"
  by (simp add: digit_char_def)

lemma is_digit_digit_char: "d < 10 \<Longrightarrow> is_digit (digit_char d)"
  by (simp add: is_digit_def of_char_digit_char)

lemma digits_all_digits: "\<forall>c \<in> set (digits n). is_digit c"
proof (induction n rule: digits.induct)
  case (1 n)
  show ?case
  proof (cases "n < 10")
    case True
    then show ?thesis by (subst digits.simps) (simp add: is_digit_digit_char)
  next
    case False
    with 1 show ?thesis by (subst digits.simps) (simp add: is_digit_digit_char)
  qed
qed

lemma decimal_value_snoc:
  "decimal_value (ds @ [c]) = 10 * decimal_value ds + (of_char c - 48)"
  by (simp add: decimal_value_def)

lemma decimal_value_digits: "decimal_value (digits n) = n"
proof (induction n rule: digits.induct)
  case (1 n)
  show ?case
  proof (cases "n < 10")
    case True
    then show ?thesis
      by (subst digits.simps) (simp add: decimal_value_def of_char_digit_char)
  next
    case False
    with 1 have "decimal_value (digits (n div 10)) = n div 10" by simp
    with False show ?thesis
      by (subst digits.simps) (simp add: decimal_value_snoc of_char_digit_char)
  qed
qed

lemma takeWhile_digits: "\<not> is_digit y \<Longrightarrow> takeWhile is_digit (digits n @ y # ys) = digits n"
  using digits_all_digits [of n] by (simp add: takeWhile_append)

lemma hd_digits_not_minus: "digits n = c # r \<Longrightarrow> c \<noteq> CHR ''-''"
proof -
  assume "digits n = c # r"
  then have "c \<in> set (digits n)" by simp
  with digits_all_digits [of n] have "is_digit c" by blast
  then show ?thesis by (auto simp: is_digit_def)
qed

lemma lenient_decimal_unsigned:
  "s = c # r \<Longrightarrow> c \<noteq> CHR ''-'' \<Longrightarrow>
   lenient_decimal s = int (decimal_value (takeWhile is_digit s))"
  by (simp add: lenient_decimal_def)

lemma lenient_decimal_digits:
  assumes "\<not> is_digit y"
  shows "lenient_decimal (digits n @ y # ys) = int n"
proof -
  obtain c r where cr: "digits n = c # r"
    using length_digits_pos [of n] by (cases "digits n") auto
  then have "c \<noteq> CHR ''-''" by (rule hd_digits_not_minus)
  moreover have "digits n @ y # ys = c # (r @ y # ys)" by (simp add: cr)
  ultimately have "lenient_decimal (digits n @ y # ys)
      = int (decimal_value (takeWhile is_digit (digits n @ y # ys)))"
    by (rule lenient_decimal_unsigned [rotated])
  then show ?thesis by (simp add: takeWhile_digits [OF assms] decimal_value_digits)
qed

lemma lenient_decimal_format_d:
  assumes "\<not> is_digit y"
  shows "lenient_decimal (format_d i @ y # ys) = i"
proof (cases "i < 0")
  case True
  then show ?thesis
    by (simp add: lenient_decimal_def format_d_def takeWhile_digits [OF assms] decimal_value_digits)
next
  case False
  then show ?thesis
    by (simp add: format_d_def lenient_decimal_digits [OF assms])
qed

lemma lenient_decimal_serialize: "lenient_decimal (serialize v) = sint v"
  unfolding serialize_def by (rule lenient_decimal_format_d) (simp add: is_digit_def)

lemma write_restores_served_text:
  assumes fp: "private_data fp = Some c"
  shows "r_cells (dfs_write_file m fp (serialize v) (length (serialize v)) 0) = atomic_set c v m"
proof -
  have small: "length (serialize v) < TMPSIZE"
    using length_serialize [of v] by (simp add: TMPSIZE_def)
  show ?thesis
    by (simp add: dfs_write_file_eq [OF fp small order_refl] lenient_decimal_serialize)
qed


subsection \<open>The two cells\<close>

lemma dfs_open_binds: "private_data (snd (dfs_open (Some c) fp)) = Some c"
  by (simp add: dfs_open_def)

lemma r_cells_write:
  "r_cells (dfs_write_file m fp ubuf count offset) = m \<or>
   (\<exists>c v. private_data fp = Some c \<and> r_cells (dfs_write_file m fp ubuf count offset) = atomic_set c v m)"
  by (auto simp: dfs_write_file_def Let_def split: option.split prod.split)

lemma serve_frame:
  assumes "private_data fp \<noteq> Some c"
  shows "atomic_read (r_cells (serve m fp rq)) c = atomic_read m c"
proof (cases rq)
  case (Read room count offset)
  with assms show ?thesis
    by (auto simp: r_cells_read atomic_read_inc split: option.split)
next
  case (Write ubuf count offset)
  with assms r_cells_write [of m fp ubuf count offset] show ?thesis
    by (auto simp: atomic_read_set)
qed

text \<open>
  Claim C8. A handler only touches the static its file is bound to: after any sequence of
  reads and writes through files that are not bound to the cell \<open>c\<close>, \<open>c\<close> holds what
  it held before. (The two files are bound to the two different statics: see the inodes
  of the mounted tree below.)
\<close>

theorem other_cell_untouched:
  assumes "\<forall>(fp, rq) \<in> set reqs. private_data fp \<noteq> Some c"
  shows "atomic_read (serve_all m reqs) c = atomic_read m c"
  using assms
proof (induction reqs arbitrary: m)
  case Nil
  show ?case by simp
next
  case (Cons a reqs)
  obtain fp rq where a: "a = (fp, rq)" by (cases a)
  with Cons.prems have "private_data fp \<noteq> Some c" by simp
  then have "atomic_read (r_cells (serve m fp rq)) c = atomic_read m c" by (rule serve_frame)
  moreover from Cons.prems have "\<forall>(fp, rq) \<in> set reqs. private_data fp \<noteq> Some c" by simp
  ultimately show ?case using Cons.IH [of "r_cells (serve m fp rq)"] by (simp add: a)
qed

theorem other_cell_untouched_witness:
  "private_data \<lparr>private_data = Some Counter\<rparr> \<noteq> Some Subcounter \<and>
   atomic_read (serve_all \<lparr>counter = 1, subcounter = 7\<rparr>
      [(\<lparr>private_data = Some Counter\<rparr>, Write ''42'' 2 0),
       (\<lparr>private_data = Some Counter\<rparr>, Read 64 64 0)]) Subcounter = 7"
proof -
  have bound: "\<forall>(fp, rq) \<in> set [(\<lparr>private_data = Some Counter\<rparr>, Write ''42'' 2 0),
                        (\<lparr>private_data = Some Counter\<rparr>, Read 64 64 0)].
      private_data fp \<noteq> Some Subcounter"
    by simp
  have other: "atomic_read (serve_all \<lparr>counter = 1, subcounter = 7\<rparr>
      [(\<lparr>private_data = Some Counter\<rparr>, Write ''42'' 2 0),
       (\<lparr>private_data = Some Counter\<rparr>, Read 64 64 0)]) Subcounter = 7"
    using other_cell_untouched [OF bound, of "\<lparr>counter = 1, subcounter = 7\<rparr>"] by simp
  then show ?thesis by simp
qed

section \<open>Properties of the mount\<close>

subsection \<open>Every allocation succeeds\<close>

lemmas mount_eval =
  dfs_fill_super_def dummyfs_create_files_def dummyfs_create_file_def dummyfs_create_dir_def
  dummyfs_make_inode_def d_make_root_def set_nlink_def inode_init_owner_def iput_def dput_def
  d_add_def d_alloc_name_def get_next_ino_def new_inode_def upd_dentry_def upd_inode_def
  mount_nodev_def Let_def

lemma alloc_succeeds:
  "False \<notin> set (allocs k) \<Longrightarrow> alloc k = (True, k\<lparr>allocs := tl (allocs k)\<rparr>)"
  by (cases "allocs k") (simp_all add: alloc_def)

lemma tl_no_failure: "False \<notin> set bs \<Longrightarrow> False \<notin> set (tl bs)"
  by (cases bs) simp_all

lemma mount_all_ok:
  assumes ok: "False \<notin> set outcomes"
  shows "fst (dfs_fill_super (mount_nodev outcomes m)) = Inr 0 \<and>
    inodes (snd (dfs_fill_super (mount_nodev outcomes m))) =
      [(1, \<lparr>i_mode = S_IFDIR OR 493, i_ino = 1, i_nlink = 2, i_fop = simple_dir_operations,
            i_op = simple_dir_inode_operations, i_private = None\<rparr>),
       (4, \<lparr>i_mode = S_IFREG OR 420, i_ino = 2, i_nlink = 1, i_fop = dummyfs_file_ops,
            i_op = empty_iops, i_private = Some Counter\<rparr>),
       (6, \<lparr>i_mode = S_IFDIR OR 493, i_ino = 3, i_nlink = 1, i_fop = simple_dir_operations,
            i_op = simple_dir_inode_operations, i_private = None\<rparr>),
       (8, \<lparr>i_mode = S_IFREG OR 420, i_ino = 4, i_nlink = 1, i_fop = dummyfs_file_ops,
            i_op = empty_iops, i_private = Some Subcounter\<rparr>)] \<and>
    dentries (snd (dfs_fill_super (mount_nodev outcomes m))) =
      [(2, \<lparr>d_name = ''/'', d_parent = None, d_inode = Some 1\<rparr>),
       (3, \<lparr>d_name = ''counter'', d_parent = Some 2, d_inode = Some 4\<rparr>),
       (5, \<lparr>d_name = ''subdir'', d_parent = Some 2, d_inode = Some 6\<rparr>),
       (7, \<lparr>d_name = ''subcounter'', d_parent = Some 5, d_inode = Some 8\<rparr>)] \<and>
    sb (snd (dfs_fill_super (mount_nodev outcomes m))) =
      \<lparr>s_blocksize = VMACACHE_SIZE, s_blocksize_bits = VMACACHE_SIZE, s_magic = 0x11223344,
       s_op = Some dummyfs_ops, s_root = Some 2\<rparr> \<and>
    cells (snd (dfs_fill_super (mount_nodev outcomes m))) = \<lparr>counter = 0, subcounter = 0\<rparr>"
  using ok
  by (simp add: mount_eval alloc_succeeds tl_no_failure LFS_MAGIC_def)

subsection \<open>What the helpers leave unchanged\<close>

lemma alloc_frame:
  "alloc k = (b, k1) \<Longrightarrow>
   sb k1 = sb k \<and> cells k1 = cells k \<and> dentries k1 = dentries k \<and> inodes k1 = inodes k \<and>
   next_ptr k1 = next_ptr k"
  by (auto simp: alloc_def split: list.splits)

lemma new_inode_frame:
  "new_inode k = (r, k1) \<Longrightarrow>
   sb k1 = sb k \<and> cells k1 = cells k \<and> dentries k1 = dentries k \<and> next_ptr k \<le> next_ptr k1"
  by (auto simp: new_inode_def Let_def split: prod.splits if_splits dest: alloc_frame)

lemma make_inode_frame:
  "dummyfs_make_inode mode fops k = (r, k1) \<Longrightarrow>
   sb k1 = sb k \<and> cells k1 = cells k \<and> dentries k1 = dentries k \<and> next_ptr k \<le> next_ptr k1"
  by (auto simp: dummyfs_make_inode_def get_next_ino_def upd_inode_def Let_def
      split: prod.splits option.splits dest: new_inode_frame)

lemma d_alloc_name_frame:
  "d_alloc_name parent name k = (r, k1) \<Longrightarrow>
   sb k1 = sb k \<and> cells k1 = cells k \<and> next_ptr k \<le> next_ptr k1 \<and>
   (case r of
      None \<Rightarrow> dentries k1 = dentries k
    | Some de \<Rightarrow>
        de = next_ptr k \<and> de < next_ptr k1 \<and>
        dentries k1 = dentries k @ [(de, \<lparr>d_name = name, d_parent = Some parent, d_inode = None\<rparr>)])"
  by (auto simp: d_alloc_name_def Let_def split: prod.splits if_splits dest: alloc_frame)

lemma map_untouched:
  "\<forall>(q, x) \<in> set ds. q \<noteq> de \<Longrightarrow> map (\<lambda>(q, d). if q = de then (q, f d) else (q, d)) ds = ds"
  by (induction ds) auto

lemma filter_untouched:
  "\<forall>(q, x) \<in> set ds. q \<noteq> de \<Longrightarrow> filter (\<lambda>(q, d). q \<noteq> de) ds = ds"
  by (induction ds) auto

lemma dput_new:
  assumes "dentries k2 = ds @ [(de, d)]" and "\<forall>(q, x) \<in> set ds. q \<noteq> de"
  shows "dentries (dput de k2) = ds"
  using assms by (simp add: dput_def filter_untouched)

lemma d_add_new:
  assumes "dentries k2 = ds @ [(de, d)]" and "\<forall>(q, x) \<in> set ds. q \<noteq> de"
  shows "dentries (d_add de ino k2) = ds @ [(de, d\<lparr>d_inode := Some ino\<rparr>)]"
  using assms by (simp add: d_add_def upd_dentry_def map_untouched)

text \<open>One entry: what both create helpers do to the dentries.\<close>

lemma entry_frame:
  assumes da: "d_alloc_name dir name k = (a, ka)"
    and mk: "dummyfs_make_inode mode fops ka = (b, kb)"
    and k1: "k1 = (case a of None \<Rightarrow> ka
                  | Some de \<Rightarrow> (case b of None \<Rightarrow> dput de kb
                                | Some ino \<Rightarrow> d_add de ino (upd_inode ino f kb)))"
    and fresh: "\<forall>(q, x) \<in> set (dentries k). q < next_ptr k"
  shows "sb k1 = sb k \<and> cells k1 = cells k \<and>
         (\<forall>(q, x) \<in> set (dentries k1). q < next_ptr k1) \<and>
         (\<exists>new. dentries k1 = dentries k @ new \<and> (\<forall>(q, x) \<in> set new. d_inode x \<noteq> None))"
proof (cases a)
  case None
  with d_alloc_name_frame [OF da] k1 fresh show ?thesis by auto
next
  case (Some de')
  note fa = d_alloc_name_frame [OF da]
  note fm = make_inode_frame [OF mk]
  from fa Some have de: "de' = next_ptr k"
    and dka: "dentries ka = dentries k @
        [(de', \<lparr>d_name = name, d_parent = Some dir, d_inode = None\<rparr>)]"
    and lt: "de' < next_ptr ka"
    by simp_all
  from fresh de have other: "\<forall>(q, x) \<in> set (dentries k). q \<noteq> de'" by auto
  from fm dka have dkb: "dentries kb = dentries k @
        [(de', \<lparr>d_name = name, d_parent = Some dir, d_inode = None\<rparr>)]" by simp
  from fm lt have ltb: "de' < next_ptr kb" by simp
  from fresh de have below: "\<forall>(q, x) \<in> set (dentries k). q < next_ptr kb"
    using ltb by auto
  show ?thesis
  proof (cases b)
    case None
    with Some k1 have k1': "k1 = dput de' kb" by simp
    have "dentries k1 = dentries k" unfolding k1' using dkb other by (rule dput_new)
    moreover have "next_ptr k1 = next_ptr kb" "sb k1 = sb k" "cells k1 = cells k"
      using fa fm by (simp_all add: k1' dput_def)
    ultimately show ?thesis using below by auto
  next
    case (Some ino)
    with \<open>a = Some de'\<close> k1 have k1': "k1 = d_add de' ino (upd_inode ino f kb)" by simp
    have "dentries (upd_inode ino f kb) = dentries k @
        [(de', \<lparr>d_name = name, d_parent = Some dir, d_inode = None\<rparr>)]"
      using dkb by (simp add: upd_inode_def)
    then have "dentries k1 = dentries k @
        [(de', \<lparr>d_name = name, d_parent = Some dir, d_inode = None\<rparr>\<lparr>d_inode := Some ino\<rparr>)]"
      unfolding k1' using other by (rule d_add_new)
    moreover have "next_ptr k1 = next_ptr kb" "sb k1 = sb k" "cells k1 = cells k"
      using fa fm by (simp_all add: k1' d_add_def upd_dentry_def upd_inode_def)
    ultimately show ?thesis using below ltb by auto
  qed
qed

lemma create_file_frame:
  assumes "\<forall>(q, x) \<in> set (dentries k). q < next_ptr k"
  shows "sb (snd (dummyfs_create_file dir name cnt k)) = sb k \<and>
         cells (snd (dummyfs_create_file dir name cnt k)) = cells k \<and>
         (\<forall>(q, x) \<in> set (dentries (snd (dummyfs_create_file dir name cnt k))).
            q < next_ptr (snd (dummyfs_create_file dir name cnt k))) \<and>
         (\<exists>new. dentries (snd (dummyfs_create_file dir name cnt k)) = dentries k @ new \<and>
                (\<forall>(q, x) \<in> set new. d_inode x \<noteq> None))"
proof -
  obtain a ka where da: "d_alloc_name dir name k = (a, ka)"
    by (cases "d_alloc_name dir name k")
  obtain b kb where mk: "dummyfs_make_inode (S_IFREG OR 420) dummyfs_file_ops ka = (b, kb)"
    by (cases "dummyfs_make_inode (S_IFREG OR 420) dummyfs_file_ops ka")
  have "snd (dummyfs_create_file dir name cnt k) =
      (case a of None \<Rightarrow> ka
       | Some de \<Rightarrow> (case b of None \<Rightarrow> dput de kb
                     | Some ino \<Rightarrow> d_add de ino (upd_inode ino (\<lambda>i. i\<lparr>i_private := Some cnt\<rparr>) kb)))"
    by (simp add: dummyfs_create_file_def da mk split: option.split)
  from entry_frame [OF da mk this assms] show ?thesis .
qed

lemma create_dir_frame:
  assumes "\<forall>(q, x) \<in> set (dentries k). q < next_ptr k"
  shows "sb (snd (dummyfs_create_dir parent name k)) = sb k \<and>
         cells (snd (dummyfs_create_dir parent name k)) = cells k \<and>
         (\<forall>(q, x) \<in> set (dentries (snd (dummyfs_create_dir parent name k))).
            q < next_ptr (snd (dummyfs_create_dir parent name k))) \<and>
         (\<exists>new. dentries (snd (dummyfs_create_dir parent name k)) = dentries k @ new \<and>
                (\<forall>(q, x) \<in> set new. d_inode x \<noteq> None))"
proof -
  obtain a ka where da: "d_alloc_name parent name k = (a, ka)"
    by (cases "d_alloc_name parent name k")
  obtain b kb where mk: "dummyfs_make_inode (S_IFDIR OR 493) simple_dir_operations ka = (b, kb)"
    by (cases "dummyfs_make_inode (S_IFDIR OR 493) simple_dir_operations ka")
  have "snd (dummyfs_create_dir parent name k) =
      (case a of None \<Rightarrow> ka
       | Some de \<Rightarrow> (case b of None \<Rightarrow> dput de kb
                     | Some ino \<Rightarrow>
                         d_add de ino (upd_inode ino (\<lambda>i. i\<lparr>i_op := simple_dir_inode_operations\<rparr>) kb)))"
    by (simp add: dummyfs_create_dir_def da mk split: option.split)
  from entry_frame [OF da mk this assms] show ?thesis .
qed

lemma create_files_frame:
  assumes fresh: "\<forall>(q, x) \<in> set (dentries k). q < next_ptr k"
  shows "sb (dummyfs_create_files root k) = sb k \<and>
         cells (dummyfs_create_files root k) = \<lparr>counter = 0, subcounter = 0\<rparr> \<and>
         (\<exists>new. dentries (dummyfs_create_files root k) = dentries k @ new \<and>
                (\<forall>(q, x) \<in> set new. d_inode x \<noteq> None))"
proof -
  define k1 where "k1 = k\<lparr>cells := atomic_set Counter 0 (cells k)\<rparr>"
  define k2 where "k2 = snd (dummyfs_create_file root ''counter'' Counter k1)"
  define k3 where "k3 = k2\<lparr>cells := atomic_set Subcounter 0 (cells k2)\<rparr>"
  define sd where "sd = fst (dummyfs_create_dir root ''subdir'' k3)"
  define k4 where "k4 = snd (dummyfs_create_dir root ''subdir'' k3)"
  define k5 where "k5 = (case sd of None \<Rightarrow> k4
                         | Some s \<Rightarrow> snd (dummyfs_create_file s ''subcounter'' Subcounter k4))"
  have res: "dummyfs_create_files root k = k5"
    unfolding k5_def k4_def sd_def k3_def k2_def k1_def
    by (simp only: dummyfs_create_files_def Let_def case_prod_beta)
  have f1: "\<forall>(q, x) \<in> set (dentries k1). q < next_ptr k1"
    using fresh by (simp add: k1_def)
  note s2 = create_file_frame [OF f1, of root "''counter''" Counter, folded k2_def]
  have f3: "\<forall>(q, x) \<in> set (dentries k3). q < next_ptr k3"
    using s2 by (simp add: k3_def)
  note s4 = create_dir_frame [OF f3, of root "''subdir''", folded k4_def]
  from s4 have f4: "\<forall>(q, x) \<in> set (dentries k4). q < next_ptr k4" by simp
  have s5: "sb k5 = sb k4 \<and> cells k5 = cells k4 \<and>
         (\<exists>new. dentries k5 = dentries k4 @ new \<and> (\<forall>(q, x) \<in> set new. d_inode x \<noteq> None))"
  proof (cases sd)
    case None
    then show ?thesis by (simp add: k5_def)
  next
    case (Some s)
    with create_file_frame [OF f4, of s "''subcounter''" Subcounter] show ?thesis
      by (simp add: k5_def)
  qed
  have sbs: "sb k5 = sb k"
    using s2 s4 s5 by (simp add: k3_def k1_def)
  have "cells k3 = \<lparr>counter = 0, subcounter = 0\<rparr>"
    using s2 by (simp add: k3_def k1_def)
  then have cs: "cells k5 = \<lparr>counter = 0, subcounter = 0\<rparr>"
    using s4 s5 by simp
  from s2 obtain n2 where n2: "dentries k2 = dentries k @ n2" "\<forall>(q, x) \<in> set n2. d_inode x \<noteq> None"
    by (auto simp: k1_def)
  from s4 obtain n4 where n4: "dentries k4 = dentries k3 @ n4" "\<forall>(q, x) \<in> set n4. d_inode x \<noteq> None"
    by auto
  from s5 obtain n5 where n5: "dentries k5 = dentries k4 @ n5" "\<forall>(q, x) \<in> set n5. d_inode x \<noteq> None"
    by auto
  have "dentries k5 = dentries k @ (n2 @ n4 @ n5)"
    using n2 n4 n5 by (simp add: k3_def)
  moreover have "\<forall>(q, x) \<in> set (n2 @ n4 @ n5). d_inode x \<noteq> None"
    using n2 n4 n5 by auto
  ultimately have "\<exists>new. dentries k5 = dentries k @ new \<and> (\<forall>(q, x) \<in> set new. d_inode x \<noteq> None)"
    by blast
  with sbs cs show ?thesis by (simp add: res)
qed

lemmas root_eval =
  dfs_fill_super_def dummyfs_make_inode_def d_make_root_def set_nlink_def inode_init_owner_def
  iput_def get_next_ino_def new_inode_def upd_inode_def alloc_def mount_nodev_def Let_def

lemma root_built:
  assumes "False \<notin> set (take 2 outcomes)"
  shows "dfs_fill_super (mount_nodev outcomes m) =
     (Inr 0, (dummyfs_create_files 2 (after_root outcomes m))
               \<lparr>sb := (sb (dummyfs_create_files 2 (after_root outcomes m)))\<lparr>s_root := Some 2\<rparr>\<rparr>)"
proof (cases outcomes)
  case Nil
  then show ?thesis by (simp add: root_eval after_root_def numeral_2_eq_2 numeral_3_eq_3)
next
  case (Cons b1 rest)
  show ?thesis
  proof (cases rest)
    case Nil
    with Cons assms show ?thesis by (simp add: root_eval after_root_def numeral_2_eq_2 numeral_3_eq_3)
  next
    case (Cons b2 rest2)
    with \<open>outcomes = b1 # rest\<close> assms show ?thesis by (simp add: root_eval after_root_def numeral_2_eq_2 numeral_3_eq_3)
  qed
qed

lemma root_not_built:
  assumes "False \<in> set (take 2 outcomes)"
  shows "fst (dfs_fill_super (mount_nodev outcomes m)) = Inl Undefined \<and>
         s_root (sb (snd (dfs_fill_super (mount_nodev outcomes m)))) = None \<and>
         dentries (snd (dfs_fill_super (mount_nodev outcomes m))) = [] \<and>
         inodes (snd (dfs_fill_super (mount_nodev outcomes m))) = []"
proof (cases outcomes)
  case Nil
  with assms show ?thesis by simp
next
  case (Cons b1 rest)
  show ?thesis
  proof (cases rest)
    case Nil
    with Cons assms show ?thesis by (simp add: root_eval)
  next
    case (Cons b2 rest2)
    with \<open>outcomes = b1 # rest\<close> assms show ?thesis by (cases b1) (simp_all add: root_eval)
  qed
qed

lemma after_root_fresh:
  "\<forall>(q, x) \<in> set (dentries (after_root outcomes m)). q < next_ptr (after_root outcomes m)"
  by (simp add: after_root_def)


subsection \<open>Allocation failures\<close>

text \<open>
  Claim C2, as stated, fails: when the inode of "counter" cannot be allocated (the fourth
  allocation), \<^verbatim>\<open>dfs_fill_super\<close> still returns 0 and the root is published, with a
  tree that has "subdir" and "subcounter" and no "counter".
\<close>

theorem mount_failure_counterexample:
  "fst (dfs_fill_super (mount_nodev [True, True, True, False] \<lparr>counter = 0, subcounter = 0\<rparr>))
     = Inr 0 \<and>
   s_root (sb (snd (dfs_fill_super
     (mount_nodev [True, True, True, False] \<lparr>counter = 0, subcounter = 0\<rparr>)))) = Some 2 \<and>
   dentries (snd (dfs_fill_super
     (mount_nodev [True, True, True, False] \<lparr>counter = 0, subcounter = 0\<rparr>))) =
     [(2, \<lparr>d_name = ''/'', d_parent = None, d_inode = Some 1\<rparr>),
      (4, \<lparr>d_name = ''subdir'', d_parent = Some 2, d_inode = Some 5\<rparr>),
      (6, \<lparr>d_name = ''subcounter'', d_parent = Some 4, d_inode = Some 7\<rparr>)]"
  by (simp add: mount_eval alloc_def)


subsection \<open>The tree that is left after failures past the root\<close>

lemma entry_exact:
  assumes fresh_d: "\<forall>(q, x) \<in> set (dentries k). q < next_ptr k"
    and fresh_i: "\<forall>(q, x) \<in> set (inodes k). q < next_ptr k"
    and ea: "entry_allocs (allocs k) = (made, used, rest)"
  shows "(case d_alloc_name dir name k of
            (None, ka) \<Rightarrow> (None, ka)
          | (Some de, ka) \<Rightarrow>
              (case dummyfs_make_inode mode fops ka of
                 (None, kb) \<Rightarrow> (None, dput de kb)
               | (Some ino, kb) \<Rightarrow> (Some de, d_add de ino (upd_inode ino f kb))))
         = (if made then Some (next_ptr k) else None,
            k\<lparr>allocs := rest, next_ptr := next_ptr k + used,
              last_ino := last_ino k + (if made then 1 else 0),
              inodes := inodes k @
                (if made
                 then [(next_ptr k + 1,
                        f \<lparr>i_mode = mode, i_ino = last_ino k + 1, i_nlink = 1, i_fop = fops,
                           i_op = empty_iops, i_private = None\<rparr>)]
                 else []),
              dentries := dentries k @
                (if made
                 then [(next_ptr k,
                        \<lparr>d_name = name, d_parent = Some dir, d_inode = Some (next_ptr k + 1)\<rparr>)]
                 else [])\<rparr>)"
proof -
  from fresh_d have d0: "\<forall>(q, x) \<in> set (dentries k). q \<noteq> next_ptr k" by auto
  from fresh_i have i1: "\<forall>(q, x) \<in> set (inodes k). q \<noteq> Suc (next_ptr k)" by auto
  note untouched = map_untouched [OF d0] filter_untouched [OF d0] map_untouched [OF i1]
  note defs = d_alloc_name_def dummyfs_make_inode_def new_inode_def alloc_def get_next_ino_def
    upd_inode_def upd_dentry_def d_add_def dput_def Let_def
  show ?thesis
  proof (cases "allocs k" rule: entry_allocs.cases)
    case 1
    with ea show ?thesis by (simp add: defs untouched del: map_map)
  next
    case (2 r)
    with ea show ?thesis by (simp add: defs untouched del: map_map)
  next
    case 3
    with ea show ?thesis by (simp add: defs untouched del: map_map)
  next
    case (4 r)
    with ea show ?thesis by (simp add: defs untouched del: map_map)
  next
    case (5 r)
    with ea show ?thesis by (simp add: defs untouched del: map_map)
  qed
qed

lemma entry_allocs_used:
  "entry_allocs bs = (made, used, rest) \<Longrightarrow> (made \<longrightarrow> used = 2) \<and> used \<le> 2"
  by (cases bs rule: entry_allocs.cases) auto

lemma create_file_exact:
  assumes "\<forall>(q, x) \<in> set (dentries k). q < next_ptr k"
    and "\<forall>(q, x) \<in> set (inodes k). q < next_ptr k"
  shows "dummyfs_create_file dir name cnt k =
     (case entry_allocs (allocs k) of (made, used, rest) \<Rightarrow>
        (if made then Some (next_ptr k) else None,
         k\<lparr>allocs := rest, next_ptr := next_ptr k + used,
           last_ino := last_ino k + (if made then 1 else 0),
           inodes := inodes k @
             (if made
              then [(next_ptr k + 1,
                     \<lparr>i_mode = S_IFREG OR 420, i_ino = last_ino k + 1, i_nlink = 1,
                      i_fop = dummyfs_file_ops, i_op = empty_iops, i_private = Some cnt\<rparr>)]
              else []),
           dentries := dentries k @
             (if made
              then [(next_ptr k,
                     \<lparr>d_name = name, d_parent = Some dir, d_inode = Some (next_ptr k + 1)\<rparr>)]
              else [])\<rparr>))"
proof -
  obtain made used rest where ea: "entry_allocs (allocs k) = (made, used, rest)"
    by (cases "entry_allocs (allocs k)")
  show ?thesis
    unfolding dummyfs_create_file_def entry_exact [OF assms ea] by (simp add: ea)
qed

lemma create_dir_exact:
  assumes "\<forall>(q, x) \<in> set (dentries k). q < next_ptr k"
    and "\<forall>(q, x) \<in> set (inodes k). q < next_ptr k"
  shows "dummyfs_create_dir parent name k =
     (case entry_allocs (allocs k) of (made, used, rest) \<Rightarrow>
        (if made then Some (next_ptr k) else None,
         k\<lparr>allocs := rest, next_ptr := next_ptr k + used,
           last_ino := last_ino k + (if made then 1 else 0),
           inodes := inodes k @
             (if made
              then [(next_ptr k + 1,
                     \<lparr>i_mode = S_IFDIR OR 493, i_ino = last_ino k + 1, i_nlink = 1,
                      i_fop = simple_dir_operations, i_op = simple_dir_inode_operations,
                      i_private = None\<rparr>)]
              else []),
           dentries := dentries k @
             (if made
              then [(next_ptr k,
                     \<lparr>d_name = name, d_parent = Some parent, d_inode = Some (next_ptr k + 1)\<rparr>)]
              else [])\<rparr>))"
proof -
  obtain made used rest where ea: "entry_allocs (allocs k) = (made, used, rest)"
    by (cases "entry_allocs (allocs k)")
  show ?thesis
    unfolding dummyfs_create_dir_def entry_exact [OF assms ea] by (simp add: ea)
qed

lemma create_files_exact:
  assumes c: "entry_allocs (drop 2 outcomes) = (c, nc, r1)"
    and s: "entry_allocs r1 = (s, ns, r2)"
    and u: "entry_allocs r2 = (u, nu, r3)"
  shows "dentries (dummyfs_create_files 2 (after_root outcomes m)) =
           (2, \<lparr>d_name = ''/'', d_parent = None, d_inode = Some 1\<rparr>) #
           (if c then [(3, \<lparr>d_name = ''counter'', d_parent = Some 2, d_inode = Some 4\<rparr>)]
            else []) @
           (if s
            then (3 + nc, \<lparr>d_name = ''subdir'', d_parent = Some 2, d_inode = Some (4 + nc)\<rparr>) #
                 (if u
                  then [(5 + nc, \<lparr>d_name = ''subcounter'', d_parent = Some (3 + nc),
                                  d_inode = Some (6 + nc)\<rparr>)]
                  else [])
            else []) \<and>
         inodes (dummyfs_create_files 2 (after_root outcomes m)) =
           (1, \<lparr>i_mode = S_IFDIR OR 493, i_ino = 1, i_nlink = 2, i_fop = simple_dir_operations,
                i_op = simple_dir_inode_operations, i_private = None\<rparr>) #
           (if c
            then [(4, \<lparr>i_mode = S_IFREG OR 420, i_ino = 2, i_nlink = 1, i_fop = dummyfs_file_ops,
                       i_op = empty_iops, i_private = Some Counter\<rparr>)]
            else []) @
           (if s
            then (4 + nc, \<lparr>i_mode = S_IFDIR OR 493, i_ino = (if c then 3 else 2), i_nlink = 1,
                            i_fop = simple_dir_operations, i_op = simple_dir_inode_operations,
                            i_private = None\<rparr>) #
                 (if u
                  then [(6 + nc, \<lparr>i_mode = S_IFREG OR 420, i_ino = (if c then 4 else 3),
                                  i_nlink = 1, i_fop = dummyfs_file_ops, i_op = empty_iops,
                                  i_private = Some Subcounter\<rparr>)]
                  else [])
            else [])"
proof -
  note uc = entry_allocs_used [OF c] and us = entry_allocs_used [OF s]
  show ?thesis
    using uc us
    by (cases c; cases s; cases u)
       (simp_all add: dummyfs_create_files_def Let_def create_file_exact create_dir_exact
          after_root_def c s u)
qed

text \<open>
  Claim C2, amended. Once the root inode and the root dentry are allocated, no later
  allocation failure fails the mount: it returns 0 with the root published, and the tree
  is exactly this: "counter" under the root when its dentry and its inode were allocated;
  "subdir" under the root when its two were; "subcounter" under "subdir" when "subdir" was
  made and its own two were allocated. An entry whose inode could not be allocated leaves
  no dentry behind, and without "subdir" nothing is asked for "subcounter". (The claim
  says nothing of a mount whose root inode or root dentry cannot be allocated.)
\<close>

theorem mount_outcome_by_allocation:
  assumes root: "False \<notin> set (take 2 outcomes)"
    and c: "entry_allocs (drop 2 outcomes) = (c, nc, r1)"
    and s: "entry_allocs r1 = (s, ns, r2)"
    and u: "entry_allocs r2 = (u, nu, r3)"
  shows "fst (dfs_fill_super (mount_nodev outcomes m)) = Inr 0 \<and>
         s_root (sb (snd (dfs_fill_super (mount_nodev outcomes m)))) = Some 2 \<and>
         dentries (snd (dfs_fill_super (mount_nodev outcomes m))) =
           (2, \<lparr>d_name = ''/'', d_parent = None, d_inode = Some 1\<rparr>) #
           (if c then [(3, \<lparr>d_name = ''counter'', d_parent = Some 2, d_inode = Some 4\<rparr>)]
            else []) @
           (if s
            then (3 + nc, \<lparr>d_name = ''subdir'', d_parent = Some 2, d_inode = Some (4 + nc)\<rparr>) #
                 (if u
                  then [(5 + nc, \<lparr>d_name = ''subcounter'', d_parent = Some (3 + nc),
                                  d_inode = Some (6 + nc)\<rparr>)]
                  else [])
            else []) \<and>
         inodes (snd (dfs_fill_super (mount_nodev outcomes m))) =
           (1, \<lparr>i_mode = S_IFDIR OR 493, i_ino = 1, i_nlink = 2, i_fop = simple_dir_operations,
                i_op = simple_dir_inode_operations, i_private = None\<rparr>) #
           (if c
            then [(4, \<lparr>i_mode = S_IFREG OR 420, i_ino = 2, i_nlink = 1, i_fop = dummyfs_file_ops,
                       i_op = empty_iops, i_private = Some Counter\<rparr>)]
            else []) @
           (if s
            then (4 + nc, \<lparr>i_mode = S_IFDIR OR 493, i_ino = (if c then 3 else 2), i_nlink = 1,
                            i_fop = simple_dir_operations, i_op = simple_dir_inode_operations,
                            i_private = None\<rparr>) #
                 (if u
                  then [(6 + nc, \<lparr>i_mode = S_IFREG OR 420, i_ino = (if c then 4 else 3),
                                  i_nlink = 1, i_fop = dummyfs_file_ops, i_op = empty_iops,
                                  i_private = Some Subcounter\<rparr>)]
                  else [])
            else [])"
proof -
  note built = root_built [OF root, of m]
  from built have ret: "fst (dfs_fill_super (mount_nodev outcomes m)) = Inr 0"
    and published: "s_root (sb (snd (dfs_fill_super (mount_nodev outcomes m)))) = Some 2"
    and ds: "dentries (snd (dfs_fill_super (mount_nodev outcomes m)))
             = dentries (dummyfs_create_files 2 (after_root outcomes m))"
    and ins: "inodes (snd (dfs_fill_super (mount_nodev outcomes m)))
             = inodes (dummyfs_create_files 2 (after_root outcomes m))"
    by simp_all
  from create_files_exact [OF c s u, of m] ret published show ?thesis
    unfolding ds ins by blast
qed

theorem mount_outcome_by_allocation_witness:
  "False \<notin> set (take 2 [True, True, True, True, False]) \<and>
   entry_allocs (drop 2 [True, True, True, True, False]) = (True, 2, [False]) \<and>
   entry_allocs [False] = (False, 0, []) \<and>
   entry_allocs [] = (True, 2, []) \<and>
   fst (dfs_fill_super (mount_nodev [True, True, True, True, False] \<lparr>counter = 5, subcounter = 6\<rparr>))
     = Inr 0 \<and>
   s_root (sb (snd (dfs_fill_super
     (mount_nodev [True, True, True, True, False] \<lparr>counter = 5, subcounter = 6\<rparr>)))) = Some 2 \<and>
   dentries (snd (dfs_fill_super
     (mount_nodev [True, True, True, True, False] \<lparr>counter = 5, subcounter = 6\<rparr>))) =
     [(2, \<lparr>d_name = ''/'', d_parent = None, d_inode = Some 1\<rparr>),
      (3, \<lparr>d_name = ''counter'', d_parent = Some 2, d_inode = Some 4\<rparr>)]"
proof -
  have root: "False \<notin> set (take 2 [True, True, True, True, False])"
    and c: "entry_allocs (drop 2 [True, True, True, True, False]) = (True, 2, [False])"
    and s: "entry_allocs [False] = (False, 0, [])"
    and u: "entry_allocs [] = (True, 2, [])"
    by (simp_all add: numeral_2_eq_2)
  from mount_outcome_by_allocation [OF root c s u, of "\<lparr>counter = 5, subcounter = 6\<rparr>"] root c s u
  show ?thesis by simp
qed

subsection \<open>The tree\<close>

text \<open>
  Claim C7, as stated, fails: when the dentry of "counter" cannot be allocated (the third
  allocation), the mount succeeds with a tree that has no "counter".
\<close>

theorem mount_tree_counterexample:
  "fst (dfs_fill_super (mount_nodev [True, True, False] \<lparr>counter = 0, subcounter = 0\<rparr>))
     = Inr 0 \<and>
   dentries (snd (dfs_fill_super
     (mount_nodev [True, True, False] \<lparr>counter = 0, subcounter = 0\<rparr>))) =
     [(2, \<lparr>d_name = ''/'', d_parent = None, d_inode = Some 1\<rparr>),
      (3, \<lparr>d_name = ''subdir'', d_parent = Some 2, d_inode = Some 4\<rparr>),
      (5, \<lparr>d_name = ''subcounter'', d_parent = Some 3, d_inode = Some 6\<rparr>)]"
  by (simp add: mount_eval alloc_def)


text \<open>
  Claim C7, amended. After a mount in which no allocation fails the tree is exactly: the
  root directory; the regular file "counter", mode 0644, under the root, bound to the
  static \<open>counter\<close>; the directory "subdir", mode 0755, under the root; the regular file
  "subcounter", mode 0644, under "subdir", bound to the other static \<open>subcounter\<close>. After
  every mount that succeeds the magic is 0x11223344, the root is published and both
  statics are 0.
\<close>

theorem mount_publishes_tree:
  "(False \<notin> set outcomes \<longrightarrow>
      fst (dfs_fill_super (mount_nodev outcomes m)) = Inr 0 \<and>
      inodes (snd (dfs_fill_super (mount_nodev outcomes m))) =
        [(1, \<lparr>i_mode = S_IFDIR OR 493, i_ino = 1, i_nlink = 2, i_fop = simple_dir_operations,
              i_op = simple_dir_inode_operations, i_private = None\<rparr>),
         (4, \<lparr>i_mode = S_IFREG OR 420, i_ino = 2, i_nlink = 1, i_fop = dummyfs_file_ops,
              i_op = empty_iops, i_private = Some Counter\<rparr>),
         (6, \<lparr>i_mode = S_IFDIR OR 493, i_ino = 3, i_nlink = 1, i_fop = simple_dir_operations,
              i_op = simple_dir_inode_operations, i_private = None\<rparr>),
         (8, \<lparr>i_mode = S_IFREG OR 420, i_ino = 4, i_nlink = 1, i_fop = dummyfs_file_ops,
              i_op = empty_iops, i_private = Some Subcounter\<rparr>)] \<and>
      dentries (snd (dfs_fill_super (mount_nodev outcomes m))) =
        [(2, \<lparr>d_name = ''/'', d_parent = None, d_inode = Some 1\<rparr>),
         (3, \<lparr>d_name = ''counter'', d_parent = Some 2, d_inode = Some 4\<rparr>),
         (5, \<lparr>d_name = ''subdir'', d_parent = Some 2, d_inode = Some 6\<rparr>),
         (7, \<lparr>d_name = ''subcounter'', d_parent = Some 5, d_inode = Some 8\<rparr>)]) \<and>
   (fst (dfs_fill_super (mount_nodev outcomes m)) = Inr 0 \<longrightarrow>
      s_magic (sb (snd (dfs_fill_super (mount_nodev outcomes m)))) = 0x11223344 \<and>
      s_root (sb (snd (dfs_fill_super (mount_nodev outcomes m)))) = Some 2 \<and>
      cells (snd (dfs_fill_super (mount_nodev outcomes m))) = \<lparr>counter = 0, subcounter = 0\<rparr>) \<and>
   S_IFDIR OR 493 = 16877 \<and> S_IFREG OR 420 = 33188"
proof -
  have full: ?thesis if "False \<notin> set outcomes"
    using mount_all_ok [OF that, of m]
    by (simp add: S_IFDIR_def S_IFREG_def)
  have part: "s_magic (sb (snd (dfs_fill_super (mount_nodev outcomes m)))) = 0x11223344 \<and>
      s_root (sb (snd (dfs_fill_super (mount_nodev outcomes m)))) = Some 2 \<and>
      cells (snd (dfs_fill_super (mount_nodev outcomes m))) = \<lparr>counter = 0, subcounter = 0\<rparr>"
    if ok: "fst (dfs_fill_super (mount_nodev outcomes m)) = Inr 0"
  proof (cases "False \<in> set (take 2 outcomes)")
    case True
    from root_not_built [OF True, of m] ok show ?thesis by simp
  next
    case False
    note built = root_built [OF False, of m]
    from create_files_frame [OF after_root_fresh, of 2 outcomes m]
    show ?thesis by (simp add: built after_root_def LFS_MAGIC_def)
  qed
  show ?thesis
  proof (cases "False \<in> set outcomes")
    case False
    then show ?thesis by (rule full)
  next
    case True
    with part show ?thesis by (simp add: S_IFDIR_def S_IFREG_def)
  qed
qed


theorem mount_publishes_tree_witness:
  "False \<notin> set ([] :: bool list) \<and>
   fst (dfs_fill_super (mount_nodev [] \<lparr>counter = 5, subcounter = 6\<rparr>)) = Inr 0 \<and>
   dentries (snd (dfs_fill_super (mount_nodev [] \<lparr>counter = 5, subcounter = 6\<rparr>))) =
        [(2, \<lparr>d_name = ''/'', d_parent = None, d_inode = Some 1\<rparr>),
         (3, \<lparr>d_name = ''counter'', d_parent = Some 2, d_inode = Some 4\<rparr>),
         (5, \<lparr>d_name = ''subdir'', d_parent = Some 2, d_inode = Some 6\<rparr>),
         (7, \<lparr>d_name = ''subcounter'', d_parent = Some 5, d_inode = Some 8\<rparr>)] \<and>
   s_magic (sb (snd (dfs_fill_super (mount_nodev [] \<lparr>counter = 5, subcounter = 6\<rparr>))))
     = 0x11223344 \<and>
   cells (snd (dfs_fill_super (mount_nodev [] \<lparr>counter = 5, subcounter = 6\<rparr>)))
     = \<lparr>counter = 0, subcounter = 0\<rparr>"
  using mount_publishes_tree [of "[]" "\<lparr>counter = 5, subcounter = 6\<rparr>"]
  by simp

end
